theory Spec2Isabelle
  imports Main "HOL-Library.AList"
begin

section \<open>Values, keys and objects\<close>

text \<open>
  The reactivity engine of \<^verbatim>\<open>src/index.js\<close> (the second document of the file, lines
  118 to 647) is embedded here.  Object identities are natural numbers.  A value is a
  primitive, a raw object, the reactive proxy of a raw object, or one of the array
  methods.  Numbers are the integers and \<open>NaN\<close>; strings are not values of the model.
\<close>

type_synonym ref = nat
type_synonym eid = nat
type_synonym cid = nat
type_synonym wid = nat

text \<open>The names of \<^verbatim>\<open>arrayInstrumentations\<close> (lines 267 to 289).\<close>

datatype amethod = Includes | IndexOf | LastIndexOf | Push | Pop | Shift | Unshift | Splice

datatype func = Native amethod | Instr amethod

datatype val =
    VUndef
  | VNull
  | VBool bool
  | VNum int
  | VNaN
  | VObj ref
  | VProxy ref
  | VFun func

text \<open>
  A property key is an array index (the canonical numeric string), an identifier-like
  name (whose \<^verbatim>\<open>Number(key)\<close> is \<open>NaN\<close>), or the symbol \<^verbatim>\<open>ITERATE_KEY\<close> of line 119.
\<close>

datatype key = Idx nat | Name string | ITERATE_KEY

datatype error = TypeError | ReferenceError | RangeError | Thrown val

datatype 'a result = Normal 'a | Throw error

text \<open>
  A raw object: whether it is an array, its own data properties, and for an array its
  \<^verbatim>\<open>length\<close>.  Accessor properties and property attributes are not modelled.
\<close>

record obj =
  is_array :: bool
  props :: "key \<Rightarrow> val option"
  alength :: nat

definition method_of_name :: "string \<Rightarrow> amethod option" where
  "method_of_name s =
     (if s = ''includes'' then Some Includes
      else if s = ''indexOf'' then Some IndexOf
      else if s = ''lastIndexOf'' then Some LastIndexOf
      else if s = ''push'' then Some Push
      else if s = ''pop'' then Some Pop
      else if s = ''shift'' then Some Shift
      else if s = ''unshift'' then Some Unshift
      else if s = ''splice'' then Some Splice
      else None)"

definition method_of_key :: "key \<Rightarrow> amethod option" where
  "method_of_key k = (case k of Name s \<Rightarrow> method_of_name s | _ \<Rightarrow> None)"

text \<open>\<^verbatim>\<open>a === b\<close> and truthiness.\<close>

definition strict_eq :: "val \<Rightarrow> val \<Rightarrow> bool" where
  "strict_eq a b = (a = b \<and> a \<noteq> VNaN)"

definition truthy :: "val \<Rightarrow> bool" where
  "truthy v = (case v of VUndef \<Rightarrow> False | VNull \<Rightarrow> False | VBool b \<Rightarrow> b
               | VNum n \<Rightarrow> n \<noteq> 0 | VNaN \<Rightarrow> False | _ \<Rightarrow> True)"

text \<open>
  \<^verbatim>\<open>Reflect.get(target, key, receiver)\<close> and \<^verbatim>\<open>target[key]\<close> on a raw object: an own
  property, the length of an array, or for an array one of the methods of
  \<^verbatim>\<open>Array.prototype\<close>; otherwise \<^verbatim>\<open>undefined\<close>.
\<close>

definition reflect_get :: "obj \<Rightarrow> key \<Rightarrow> val" where
  "reflect_get ob k =
     (if is_array ob \<and> k = Name ''length'' then VNum (int (alength ob))
      else case props ob k of
             Some v \<Rightarrow> v
           | None \<Rightarrow> (if is_array ob
                      then (case method_of_key k of Some m \<Rightarrow> VFun (Native m) | None \<Rightarrow> VUndef)
                      else VUndef))"

text \<open>\<^verbatim>\<open>Object.prototype.hasOwnProperty.call(target, key)\<close>.\<close>

definition hasOwn :: "obj \<Rightarrow> key \<Rightarrow> bool" where
  "hasOwn ob k = ((is_array ob \<and> k = Name ''length'') \<or> props ob k \<noteq> None)"

text \<open>
  The value written to the \<^verbatim>\<open>length\<close> of an array must convert to an array length, or
  the write throws a RangeError.  An object is taken to convert to \<open>NaN\<close>.
\<close>

definition to_array_length :: "val \<Rightarrow> nat option" where
  "to_array_length v =
     (case v of
        VNum n \<Rightarrow> (if 0 \<le> n \<and> n < 4294967296 then Some (nat n) else None)
      | VNull \<Rightarrow> Some 0
      | VBool b \<Rightarrow> Some (if b then 1 else 0)
      | _ \<Rightarrow> None)"

text \<open>
  \<^verbatim>\<open>Reflect.set(target, key, newVal, receiver)\<close> where the receiver is a proxy over the
  target without a \<^verbatim>\<open>defineProperty\<close> trap: the property is stored on the raw target.
  Writing an index at or beyond the length of an array extends the length; writing the
  length removes the elements at or beyond it.
\<close>

definition reflect_set :: "obj \<Rightarrow> key \<Rightarrow> val \<Rightarrow> error + obj" where
  "reflect_set ob k v =
     (if is_array ob then
        (case k of
           Idx i \<Rightarrow> Inr (ob\<lparr>props := (props ob)(k := Some v),
                            alength := (if alength ob \<le> i then Suc i else alength ob)\<rparr>)
         | Name s \<Rightarrow>
             (if s = ''length'' then
                (case to_array_length v of
                   None \<Rightarrow> Inl RangeError
                 | Some l \<Rightarrow>
                     Inr (ob\<lparr>props := (\<lambda>k'. case k' of
                                           Idx j \<Rightarrow> (if j < l then props ob k' else None)
                                         | _ \<Rightarrow> props ob k'),
                             alength := l\<rparr>))
              else Inr (ob\<lparr>props := (props ob)(k := Some v)\<rparr>))
         | ITERATE_KEY \<Rightarrow> Inr (ob\<lparr>props := (props ob)(k := Some v)\<rparr>))
      else Inr (ob\<lparr>props := (props ob)(k := Some v)\<rparr>))"

text \<open>\<^verbatim>\<open>Reflect.deleteProperty(target, key)\<close>: the length of an array cannot be deleted.\<close>

definition reflect_delete :: "obj \<Rightarrow> key \<Rightarrow> bool \<times> obj" where
  "reflect_delete ob k =
     (if is_array ob \<and> k = Name ''length'' then (False, ob)
      else (True, ob\<lparr>props := (props ob)(k := None)\<rparr>))"

section \<open>Functions of the user, effects and the state\<close>

text \<open>
  A function of the user (the \<^verbatim>\<open>fn\<close> handed to \<^verbatim>\<open>effect\<close>, a getter, a callback, a
  scheduler) is the tree of the operations it performs on the engine; each operation
  hands its result to the rest of the function.
\<close>

datatype prog =
    Ret val
  | Raise error
  | Get val key "val \<Rightarrow> prog"
  | Put val key val prog
  | Delete val key "bool \<Rightarrow> prog"
  | Call val val "val list" "val \<Rightarrow> prog"
  | CValue cid "val \<Rightarrow> prog"
  | Invoke eid "val \<Rightarrow> prog"
  | PRGet val key "val \<Rightarrow> prog"
  | PRPut val key val prog

text \<open>
  The schedulers of the source: the one of \<^verbatim>\<open>computed\<close> (lines 298 to 302), the
  \<^verbatim>\<open>job\<close> of \<^verbatim>\<open>watch\<close> (lines 325 to 329), \<^verbatim>\<open>queueJob\<close> (line 512), and a function
  of the user that is handed the effect.
\<close>

datatype sched = SchedComputed cid | SchedWatch wid | SchedQueueJob | SchedUser "eid \<Rightarrow> prog"

record options =
  lazy :: bool
  scheduler :: "sched option"

text \<open>
  An effect function (lines 241 to 251): the wrapped \<^verbatim>\<open>fn\<close>, its \<^verbatim>\<open>options\<close>, and
  \<^verbatim>\<open>deps\<close>, the list of the dependency sets it was added to.  A dependency set is
  named by its target and key: \<^verbatim>\<open>track\<close> creates the set of a target and key once and
  nothing replaces it.
\<close>

record effect_rec =
  fn :: prog
  opts :: options
  deps :: "(ref \<times> key) list"

record computed_rec =
  cvalue :: val
  dirty :: bool
  ceffect :: eid

record watch_rec =
  oldValue :: val
  newValue :: val
  weffect :: eid
  cb :: "val \<Rightarrow> val \<Rightarrow> prog"

text \<open>What a run leaves behind for an observer: each call of an effect's \<^verbatim>\<open>fn\<close> (line
  246) and each call of a watch callback with its two arguments (line 327).\<close>

datatype event = Ran eid | Called wid val val

text \<open>
  The state of the module.  \<^verbatim>\<open>bucket\<close> maps a target to its \<^verbatim>\<open>depsMap\<close>, a Map from
  keys to Sets of effects; Maps and Sets keep insertion order, so they are
  association lists and duplicate-free lists.  \<^verbatim>\<open>queue_clear\<close> is the own property
  \<^verbatim>\<open>clear\<close> of the Set \<^verbatim>\<open>queue\<close>; \<^verbatim>\<open>microtasks\<close> counts the callbacks handed
  to \<^verbatim>\<open>p.then\<close> that have not run yet.  The identifiers \<^verbatim>\<open>newVal\<close> (line 218) and
  \<^verbatim>\<open>options\<close> (line 334) are declared by no scope of the file: \<^verbatim>\<open>global_newVal\<close> and
  \<^verbatim>\<open>global_options\<close> are their bindings in the global scope, \<open>None\<close> when there is
  none (a number, and the truthiness of \<^verbatim>\<open>options.immediate\<close>).
\<close>

record state =
  heap :: "ref \<Rightarrow> obj"
  bucket :: "ref \<Rightarrow> (key \<times> eid list) list option"
  activeEffect :: "eid option"
  effectStack :: "eid list"
  effects :: "eid \<Rightarrow> effect_rec"
  next_effect :: eid
  shouldTrack :: bool
  computeds :: "cid \<Rightarrow> computed_rec"
  next_computed :: cid
  watches :: "wid \<Rightarrow> watch_rec"
  next_watch :: wid
  queue :: "eid list"
  isFlushing :: bool
  queue_clear :: "val option"
  microtasks :: nat
  global_newVal :: "int option"
  global_options :: "bool option"
  trace :: "event list"

text \<open>A call returns a value or throws, in a new state; \<open>None\<close> when it does not return.\<close>

type_synonym 'a outcome = "('a result \<times> state) option"

definition bind :: "'a outcome \<Rightarrow> ('a \<Rightarrow> state \<Rightarrow> 'b outcome) \<Rightarrow> 'b outcome" where
  "bind m f =
     (case m of
        None \<Rightarrow> None
      | Some (Throw e, s) \<Rightarrow> Some (Throw e, s)
      | Some (Normal v, s) \<Rightarrow> f v s)"

definition ok :: "'a \<Rightarrow> state \<Rightarrow> 'a outcome" where
  "ok v s = Some (Normal v, s)"

definition throw :: "error \<Rightarrow> state \<Rightarrow> 'a outcome" where
  "throw e s = Some (Throw e, s)"

text \<open>\<^verbatim>\<open>Set.prototype.add\<close> and \<^verbatim>\<open>Set.prototype.delete\<close> on an insertion-ordered Set.\<close>

definition set_add :: "'a \<Rightarrow> 'a list \<Rightarrow> 'a list" where
  "set_add x xs = (if x \<in> set xs then xs else xs @ [x])"

definition set_delete :: "'a \<Rightarrow> 'a list \<Rightarrow> 'a list" where
  "set_delete x xs = filter (\<lambda>y. y \<noteq> x) xs"

text \<open>\<^verbatim>\<open>depsMap.get(key)\<close>, and the Set of a target and key, empty when there is none.\<close>

definition depsMap_get :: "(key \<times> eid list) list \<Rightarrow> key \<Rightarrow> eid list option" where
  "depsMap_get dm k = map_of dm k"

definition bucket_get :: "(ref \<Rightarrow> (key \<times> eid list) list option) \<Rightarrow> ref \<Rightarrow> key \<Rightarrow> eid list" where
  "bucket_get b t k =
     (case b t of
        None \<Rightarrow> []
      | Some dm \<Rightarrow> (case depsMap_get dm k of None \<Rightarrow> [] | Some ds \<Rightarrow> ds))"

definition dep_set :: "state \<Rightarrow> ref \<Rightarrow> key \<Rightarrow> eid list" where
  "dep_set s t k = bucket_get (bucket s) t k"

section \<open>The dependency store: track and cleanup\<close>

text \<open>\<^verbatim>\<open>track\<close>, lines 169 to 181.  The value it returns is used by no caller.\<close>

definition track :: "ref \<Rightarrow> key \<Rightarrow> state \<Rightarrow> state" where
  "track t k s =
     (case activeEffect s of
        None \<Rightarrow> s
      | Some e \<Rightarrow>
          (let depsMap = (case bucket s t of None \<Rightarrow> [] | Some dm \<Rightarrow> dm);
               ds = (case depsMap_get depsMap k of None \<Rightarrow> [] | Some d \<Rightarrow> d)
           in s\<lparr>bucket := (bucket s)(t := Some (AList.update k (set_add e ds) depsMap)),
                effects := (effects s)(e := (effects s e)\<lparr>deps := deps (effects s e) @ [(t, k)]\<rparr>)\<rparr>))"

text \<open>\<^verbatim>\<open>deps.delete(effectFn)\<close> on the Set of a target and key.\<close>

definition bucket_delete ::
  "eid \<Rightarrow> ref \<times> key \<Rightarrow> (ref \<Rightarrow> (key \<times> eid list) list option) \<Rightarrow> (ref \<Rightarrow> (key \<times> eid list) list option)" where
  "bucket_delete e tk b =
     (case b (fst tk) of
        None \<Rightarrow> b
      | Some dm \<Rightarrow>
          (case depsMap_get dm (snd tk) of
             None \<Rightarrow> b
           | Some ds \<Rightarrow> b(fst tk := Some (AList.update (snd tk) (set_delete e ds) dm))))"

text \<open>\<^verbatim>\<open>cleanup\<close>, lines 229 to 235.\<close>

definition cleanup :: "eid \<Rightarrow> state \<Rightarrow> state" where
  "cleanup e s =
     s\<lparr>bucket := fold (bucket_delete e) (deps (effects s e)) (bucket s),
       effects := (effects s)(e := (effects s e)\<lparr>deps := []\<rparr>)\<rparr>"

section \<open>Reading through the proxies\<close>

text \<open>The \<^verbatim>\<open>get\<close> trap of the reactive proxy, lines 125 to 131: the call of
  \<^verbatim>\<open>track\<close>, then the value of lines 127 to 130.\<close>

definition get_result :: "obj \<Rightarrow> key \<Rightarrow> val" where
  "get_result ob k =
     (case (if is_array ob then method_of_key k else None) of
        Some m \<Rightarrow> VFun (Instr m)
      | None \<Rightarrow> reflect_get ob k)"

definition get_handler :: "ref \<Rightarrow> key \<Rightarrow> state \<Rightarrow> val \<times> state" where
  "get_handler t k s = (let s1 = track t k s in (get_result (heap s1 t) k, s1))"

text \<open>
  \<^verbatim>\<open>x[key]\<close> for a value \<open>x\<close>: a TypeError on \<^verbatim>\<open>undefined\<close> and \<^verbatim>\<open>null\<close>, the trap on
  a reactive proxy, the property of a raw object, \<^verbatim>\<open>undefined\<close> on another primitive.
\<close>

definition js_get :: "val \<Rightarrow> key \<Rightarrow> state \<Rightarrow> val result \<times> state" where
  "js_get x k s =
     (case x of
        VUndef \<Rightarrow> (Throw TypeError, s)
      | VNull \<Rightarrow> (Throw TypeError, s)
      | VObj t \<Rightarrow> (Normal (reflect_get (heap s t) k), s)
      | VProxy t \<Rightarrow> (case get_handler t k s of (v, s1) \<Rightarrow> (Normal v, s1))
      | _ \<Rightarrow> (Normal VUndef, s))"

definition is_object :: "val \<Rightarrow> bool" where
  "is_object x = (case x of VObj t \<Rightarrow> True | VProxy t \<Rightarrow> True | _ \<Rightarrow> False)"

text \<open>
  The \<^verbatim>\<open>get\<close> trap of \<^verbatim>\<open>proxyRefs(target)\<close>, lines 389 to 392.  The target is a raw
  object or a reactive proxy (\<^verbatim>\<open>new Proxy\<close> throws a TypeError on anything else).
\<close>

definition proxyRefs_get :: "val \<Rightarrow> key \<Rightarrow> state \<Rightarrow> val result \<times> state" where
  "proxyRefs_get target k s =
     (if \<not> is_object target then (Throw TypeError, s)
      else case js_get target k s of
             (Throw e, s1) \<Rightarrow> (Throw e, s1)
           | (Normal v, s1) \<Rightarrow>
               (case js_get v (Name ''_v_isRef'') s1 of
                  (Throw e, s2) \<Rightarrow> (Throw e, s2)
                | (Normal isRef, s2) \<Rightarrow>
                    (if truthy isRef then js_get v (Name ''value'') s2 else (Normal v, s2))))"

section \<open>The job queue\<close>

text \<open>
  \<^verbatim>\<open>queueJob\<close>, lines 533 to 546, up to the call of \<^verbatim>\<open>p.then\<close>: the callback is
  counted in \<^verbatim>\<open>microtasks\<close> and runs later (\<open>flushJobs\<close> below).  A job is an effect
  function, as \<^verbatim>\<open>queueJob\<close> is the scheduler of line 512.
\<close>

definition queueJob :: "eid \<Rightarrow> state \<Rightarrow> state" where
  "queueJob j s =
     (let s1 = s\<lparr>queue := set_add j (queue s)\<rparr>
      in if \<not> isFlushing s1 then s1\<lparr>isFlushing := True, microtasks := Suc (microtasks s1)\<rparr>
         else s1)"

section \<open>Running effects\<close>

text \<open>
  The functions below take \<open>call\<close>, which runs a function of the user in a state.
  \<^verbatim>\<open>effectFn\<close> is the arrow function of lines 241 to 249: it has no \<^verbatim>\<open>return\<close>
  statement, and no \<^verbatim>\<open>finally\<close> around \<^verbatim>\<open>fn()\<close>.
\<close>

definition effectFn :: "(prog \<Rightarrow> state \<Rightarrow> val outcome) \<Rightarrow> eid \<Rightarrow> state \<Rightarrow> val outcome" where
  "effectFn call e s =
     (let s1 = cleanup e s;
          s2 = s1\<lparr>activeEffect := Some e, effectStack := effectStack s1 @ [e]\<rparr>
      in bind (call (fn (effects s2 e)) (s2\<lparr>trace := trace s2 @ [Ran e]\<rparr>))
           (\<lambda>r s3.
              let stk = butlast (effectStack s3)
              in ok VUndef (s3\<lparr>effectStack := stk,
                               activeEffect := (if stk = [] then None else Some (last stk))\<rparr>)))"

text \<open>The \<^verbatim>\<open>job\<close> of \<^verbatim>\<open>watch\<close>, lines 325 to 329.\<close>

definition job :: "(prog \<Rightarrow> state \<Rightarrow> val outcome) \<Rightarrow> wid \<Rightarrow> state \<Rightarrow> unit outcome" where
  "job call w s =
     bind (effectFn call (weffect (watches s w)) s)
       (\<lambda>r s1.
          let s2 = s1\<lparr>watches := (watches s1)(w := (watches s1 w)\<lparr>newValue := r\<rparr>)\<rparr>;
              nv = newValue (watches s2 w);
              ov = oldValue (watches s2 w)
          in bind (call (cb (watches s2 w) nv ov) (s2\<lparr>trace := trace s2 @ [Called w nv ov]\<rparr>))
               (\<lambda>r' s3. ok () (s3\<lparr>watches :=
                   (watches s3)(w := (watches s3 w)\<lparr>oldValue := newValue (watches s3 w)\<rparr>)\<rparr>)))"

text \<open>\<^verbatim>\<open>effectFn.options.scheduler(effectFn)\<close>, line 202, for each scheduler.\<close>

definition run_scheduler ::
  "(prog \<Rightarrow> state \<Rightarrow> val outcome) \<Rightarrow> sched \<Rightarrow> eid \<Rightarrow> state \<Rightarrow> unit outcome" where
  "run_scheduler call sch e s =
     (case sch of
        SchedComputed c \<Rightarrow>
          (if \<not> dirty (computeds s c)
           then ok () (s\<lparr>computeds := (computeds s)(c := (computeds s c)\<lparr>dirty := True\<rparr>)\<rparr>)
           else ok () s)
      | SchedWatch w \<Rightarrow> job call w s
      | SchedQueueJob \<Rightarrow> ok () (queueJob e s)
      | SchedUser f \<Rightarrow> bind (call (f e) s) (\<lambda>r s1. ok () s1))"

text \<open>The body of the loop of lines 200 to 206, and the loop.\<close>

definition run_one :: "(prog \<Rightarrow> state \<Rightarrow> val outcome) \<Rightarrow> eid \<Rightarrow> state \<Rightarrow> unit outcome" where
  "run_one call e s =
     (case scheduler (opts (effects s e)) of
        Some sch \<Rightarrow> run_scheduler call sch e s
      | None \<Rightarrow> bind (effectFn call e s) (\<lambda>r s1. ok () s1))"

primrec run_effects :: "(prog \<Rightarrow> state \<Rightarrow> val outcome) \<Rightarrow> eid list \<Rightarrow> state \<Rightarrow> unit outcome" where
  "run_effects call [] s = ok () s"
| "run_effects call (e # es) s = bind (run_one call e s) (\<lambda>u s1. run_effects call es s1)"

section \<open>trigger\<close>

datatype trigger_type = SET | ADD | DELETE

text \<open>\<^verbatim>\<open>key >= newVal\<close> of line 218 for a number \<^verbatim>\<open>newVal\<close>: a symbol does not convert.\<close>

definition key_ge :: "key \<Rightarrow> int \<Rightarrow> error + bool" where
  "key_ge k n = (case k of Idx i \<Rightarrow> Inr (n \<le> int i) | Name s \<Rightarrow> Inr False | ITERATE_KEY \<Rightarrow> Inl TypeError)"

text \<open>Adding the effects of a Set to \<^verbatim>\<open>effectsToRun\<close>, with and without the test
  \<^verbatim>\<open>effectFn !== activeEffect\<close>.\<close>

definition add_all :: "eid list \<Rightarrow> eid list \<Rightarrow> eid list" where
  "add_all es acc = fold set_add es acc"

definition add_inactive :: "eid option \<Rightarrow> eid list \<Rightarrow> eid list \<Rightarrow> eid list" where
  "add_inactive act es acc = fold (\<lambda>e a. if Some e \<noteq> act then set_add e a else a) es acc"

text \<open>The \<^verbatim>\<open>depsMap.forEach\<close> of lines 217 to 225: \<^verbatim>\<open>newVal\<close> is not a parameter of
  \<^verbatim>\<open>trigger\<close>, so the callback evaluates a global identifier at each entry.\<close>

primrec length_entries ::
  "int option \<Rightarrow> eid option \<Rightarrow> (key \<times> eid list) list \<Rightarrow> eid list \<Rightarrow> error + eid list" where
  "length_entries nv act [] acc = Inr acc"
| "length_entries nv act (p # ps) acc =
     (case nv of
        None \<Rightarrow> Inl ReferenceError
      | Some n \<Rightarrow>
          (case key_ge (fst p) n of
             Inl e \<Rightarrow> Inl e
           | Inr b \<Rightarrow> length_entries nv act ps (if b then add_inactive act (snd p) acc else acc)))"

text \<open>
  \<^verbatim>\<open>trigger\<close>, lines 184 to 227.  The source returns nothing; the model returns the
  final content of the local Set \<^verbatim>\<open>effectsToRun\<close>, which no caller uses.  After the
  loop has run, \<^verbatim>\<open>depsMap\<close> is the same Map object with the content it has by then.
\<close>

definition trigger ::
  "(prog \<Rightarrow> state \<Rightarrow> val outcome) \<Rightarrow> ref \<Rightarrow> key \<Rightarrow> trigger_type \<Rightarrow> state \<Rightarrow> eid list outcome" where
  "trigger call t k ty s =
     (case bucket s t of
        None \<Rightarrow> ok [] s
      | Some depsMap \<Rightarrow>
          (let effectsToRun0 = (case depsMap_get depsMap k of None \<Rightarrow> [] | Some es \<Rightarrow> add_all es []);
               effectsToRun1 =
                 (if ty = ADD \<or> ty = DELETE
                  then (case depsMap_get depsMap ITERATE_KEY of
                          None \<Rightarrow> effectsToRun0
                        | Some es \<Rightarrow> add_all es effectsToRun0)
                  else effectsToRun0)
           in bind (run_effects call effectsToRun1 s)
                (\<lambda>u s1.
                   let depsMap1 = (case bucket s1 t of None \<Rightarrow> [] | Some dm \<Rightarrow> dm);
                       effectsToRun2 =
                         (if ty = ADD \<and> is_array (heap s1 t)
                          then (case depsMap_get depsMap1 (Name ''length'') of
                                  None \<Rightarrow> effectsToRun1
                                | Some es \<Rightarrow> add_inactive (activeEffect s1) es effectsToRun1)
                          else effectsToRun1)
                   in if is_array (heap s1 t) \<and> k = Name ''length''
                      then (case length_entries (global_newVal s1) (activeEffect s1) depsMap1 effectsToRun2 of
                              Inl e \<Rightarrow> throw e s1
                            | Inr effectsToRun3 \<Rightarrow> ok effectsToRun3 s1)
                      else ok effectsToRun2 s1)))"

section \<open>Writing through the proxies\<close>

text \<open>
  The receiver of a write: the reactive proxy itself, or the proxy that
  \<^verbatim>\<open>proxyRefs\<close> made over the given target.
\<close>

datatype receiver = Self | ViaProxyRefs val

text \<open>\<^verbatim>\<open>receiver.raw\<close>, line 160: a property read on the receiver, through its
  \<^verbatim>\<open>get\<close> trap.\<close>

definition receiver_raw :: "receiver \<Rightarrow> ref \<Rightarrow> state \<Rightarrow> val result \<times> state" where
  "receiver_raw recv t s =
     (case recv of
        Self \<Rightarrow> js_get (VProxy t) (Name ''raw'') s
      | ViaProxyRefs target \<Rightarrow> proxyRefs_get target (Name ''raw'') s)"

text \<open>The mutation kind of lines 152 to 158; \<^verbatim>\<open>Number(key)\<close> throws on a symbol.\<close>

definition set_type :: "obj \<Rightarrow> key \<Rightarrow> error + trigger_type" where
  "set_type ob k =
     (if is_array ob then
        (case k of
           Idx i \<Rightarrow> Inr (if i < alength ob then SET else ADD)
         | Name s \<Rightarrow> Inr ADD
         | ITERATE_KEY \<Rightarrow> Inl TypeError)
      else Inr (if hasOwn ob k then SET else ADD))"

text \<open>The \<^verbatim>\<open>set\<close> trap of the reactive proxy, lines 150 to 166.\<close>

definition set_handler ::
  "(prog \<Rightarrow> state \<Rightarrow> val outcome) \<Rightarrow> ref \<Rightarrow> key \<Rightarrow> val \<Rightarrow> receiver \<Rightarrow> state \<Rightarrow> bool outcome" where
  "set_handler call t k newVal recv s =
     (let oldVal = reflect_get (heap s t) k
      in case set_type (heap s t) k of
           Inl e \<Rightarrow> throw e s
         | Inr ty \<Rightarrow>
             (case reflect_set (heap s t) k newVal of
                Inl e \<Rightarrow> throw e s
              | Inr ob' \<Rightarrow>
                  (case receiver_raw recv t (s\<lparr>heap := (heap s)(t := ob')\<rparr>) of
                     (Throw e, s2) \<Rightarrow> throw e s2
                   | (Normal rawv, s2) \<Rightarrow>
                       (if strict_eq (VObj t) rawv
                        then (if \<not> strict_eq oldVal newVal
                                  \<and> (strict_eq oldVal oldVal \<or> strict_eq newVal newVal)
                              then bind (trigger call t k ty s2) (\<lambda>es s3. ok True s3)
                              else ok True s2)
                        else ok True s2))))"

text \<open>The \<^verbatim>\<open>deleteProperty\<close> trap, lines 142 to 149.\<close>

definition deleteProperty_handler ::
  "(prog \<Rightarrow> state \<Rightarrow> val outcome) \<Rightarrow> ref \<Rightarrow> key \<Rightarrow> state \<Rightarrow> bool outcome" where
  "deleteProperty_handler call t k s =
     (let hadkey = hasOwn (heap s t) k;
          res = fst (reflect_delete (heap s t) k);
          s1 = s\<lparr>heap := (heap s)(t := snd (reflect_delete (heap s t) k))\<rparr>
      in if res \<and> hadkey then bind (trigger call t k DELETE s1) (\<lambda>es s2. ok res s2)
         else ok res s1)"

text \<open>\<^verbatim>\<open>x[key] = v\<close> and \<^verbatim>\<open>delete x[key]\<close> for a value \<open>x\<close>.\<close>

definition js_set ::
  "(prog \<Rightarrow> state \<Rightarrow> val outcome) \<Rightarrow> val \<Rightarrow> key \<Rightarrow> val \<Rightarrow> state \<Rightarrow> unit outcome" where
  "js_set call x k v s =
     (case x of
        VUndef \<Rightarrow> throw TypeError s
      | VNull \<Rightarrow> throw TypeError s
      | VObj t \<Rightarrow>
          (case reflect_set (heap s t) k v of
             Inl e \<Rightarrow> throw e s
           | Inr ob' \<Rightarrow> ok () (s\<lparr>heap := (heap s)(t := ob')\<rparr>))
      | VProxy t \<Rightarrow> bind (set_handler call t k v Self s) (\<lambda>b s1. ok () s1)
      | _ \<Rightarrow> ok () s)"

definition js_delete ::
  "(prog \<Rightarrow> state \<Rightarrow> val outcome) \<Rightarrow> val \<Rightarrow> key \<Rightarrow> state \<Rightarrow> bool outcome" where
  "js_delete call x k s =
     (case x of
        VUndef \<Rightarrow> throw TypeError s
      | VNull \<Rightarrow> throw TypeError s
      | VObj t \<Rightarrow>
          ok (fst (reflect_delete (heap s t) k))
             (s\<lparr>heap := (heap s)(t := snd (reflect_delete (heap s t) k))\<rparr>)
      | VProxy t \<Rightarrow> deleteProperty_handler call t k s
      | _ \<Rightarrow> ok True s)"

text \<open>The \<^verbatim>\<open>set\<close> trap of \<^verbatim>\<open>proxyRefs(target)\<close>, lines 393 to 400.\<close>

definition proxyRefs_set ::
  "(prog \<Rightarrow> state \<Rightarrow> val outcome) \<Rightarrow> val \<Rightarrow> key \<Rightarrow> val \<Rightarrow> state \<Rightarrow> bool outcome" where
  "proxyRefs_set call target k newv s =
     (if \<not> is_object target then throw TypeError s
      else case js_get target k s of
             (Throw e, s1) \<Rightarrow> throw e s1
           | (Normal v, s1) \<Rightarrow>
               (case js_get v (Name ''_v_isRef'') s1 of
                  (Throw e, s2) \<Rightarrow> throw e s2
                | (Normal isRef, s2) \<Rightarrow>
                    (if truthy isRef
                     then bind (js_set call v (Name ''value'') newv s2) (\<lambda>u s3. ok True s3)
                     else (case target of
                             VProxy t \<Rightarrow> set_handler call t k newv (ViaProxyRefs target) s2
                           | VObj t \<Rightarrow>
                               (case reflect_set (heap s2 t) k newv of
                                  Inl e \<Rightarrow> throw e s2
                                | Inr ob' \<Rightarrow> ok True (s2\<lparr>heap := (heap s2)(t := ob')\<rparr>))
                           | _ \<Rightarrow> throw TypeError s2))))"

section \<open>Array methods\<close>

text \<open>
  \<^verbatim>\<open>Array.prototype.push\<close> and \<^verbatim>\<open>Array.prototype.pop\<close> as the language defines
  them, on whatever \<^verbatim>\<open>this\<close> is: they read \<^verbatim>\<open>length\<close>, write or delete the
  elements and write \<^verbatim>\<open>length\<close>.  The algorithms of the other methods are not
  modelled: a call of one of them has no outcome in the model.
\<close>

definition to_length :: "val \<Rightarrow> nat" where
  "to_length v = (case v of VNum n \<Rightarrow> nat n | VBool b \<Rightarrow> (if b then 1 else 0) | _ \<Rightarrow> 0)"

primrec put_all :: "val \<Rightarrow> nat \<Rightarrow> val list \<Rightarrow> prog \<Rightarrow> prog" where
  "put_all this i [] rest = rest"
| "put_all this i (a # as) rest = Put this (Idx i) a (put_all this (Suc i) as rest)"

definition push_body :: "val \<Rightarrow> val list \<Rightarrow> prog" where
  "push_body this args =
     Get this (Name ''length'')
       (\<lambda>l. put_all this (to_length l) args
              (Put this (Name ''length'') (VNum (int (to_length l + length args)))
                 (Ret (VNum (int (to_length l + length args))))))"

definition pop_body :: "val \<Rightarrow> prog" where
  "pop_body this =
     Get this (Name ''length'')
       (\<lambda>l. if to_length l = 0 then Put this (Name ''length'') (VNum 0) (Ret VUndef)
            else Get this (Idx (to_length l - 1))
                   (\<lambda>element. Delete this (Idx (to_length l - 1))
                      (\<lambda>deleted. if deleted
                                  then Put this (Name ''length'') (VNum (int (to_length l - 1)))
                                         (Ret element)
                                  else Raise TypeError)))"

definition originMethod :: "amethod \<Rightarrow> val \<Rightarrow> val list \<Rightarrow> prog option" where
  "originMethod m this args =
     (case m of Push \<Rightarrow> Some (push_body this args) | Pop \<Rightarrow> Some (pop_body this) | _ \<Rightarrow> None)"

definition is_search :: "amethod \<Rightarrow> bool" where
  "is_search m = (m = Includes \<or> m = IndexOf \<or> m = LastIndexOf)"

text \<open>
  The functions stored in \<^verbatim>\<open>arrayInstrumentations\<close>: lines 270 to 276 for the
  searching methods, lines 283 to 288 for the mutating ones.
\<close>

definition arrayInstrumentations ::
  "(prog \<Rightarrow> state \<Rightarrow> val outcome) \<Rightarrow> amethod \<Rightarrow> val \<Rightarrow> val list \<Rightarrow> state \<Rightarrow> val outcome" where
  "arrayInstrumentations call m this args s =
     (if is_search m then
        (case originMethod m this args of
           None \<Rightarrow> None
         | Some body \<Rightarrow>
             bind (call body s)
               (\<lambda>res s1.
                  if strict_eq res (VBool False) \<or> strict_eq res (VNum (- 1))
                  then (case js_get this (Name ''raw'') s1 of
                          (Throw e, s2) \<Rightarrow> throw e s2
                        | (Normal rawv, s2) \<Rightarrow>
                            (case originMethod m rawv args of
                               None \<Rightarrow> None
                             | Some body2 \<Rightarrow> call body2 s2))
                  else ok res s1))
      else
        (case originMethod m this args of
           None \<Rightarrow> None
         | Some body \<Rightarrow>
             bind (call body (s\<lparr>shouldTrack := False\<rparr>))
               (\<lambda>res s1. ok res (s1\<lparr>shouldTrack := True\<rparr>))))"

text \<open>\<^verbatim>\<open>f.apply(this, args)\<close> for a value \<open>f\<close>.\<close>

definition call_function ::
  "(prog \<Rightarrow> state \<Rightarrow> val outcome) \<Rightarrow> val \<Rightarrow> val \<Rightarrow> val list \<Rightarrow> state \<Rightarrow> val outcome" where
  "call_function call f this args s =
     (case f of
        VFun (Instr m) \<Rightarrow> arrayInstrumentations call m this args s
      | VFun (Native m) \<Rightarrow>
          (case originMethod m this args of None \<Rightarrow> None | Some body \<Rightarrow> call body s)
      | _ \<Rightarrow> throw TypeError s)"

section \<open>computed\<close>

text \<open>The getter \<^verbatim>\<open>get value()\<close> of a computed, lines 305 to 311.\<close>

definition computed_value :: "(prog \<Rightarrow> state \<Rightarrow> val outcome) \<Rightarrow> cid \<Rightarrow> state \<Rightarrow> val outcome" where
  "computed_value call c s =
     (if dirty (computeds s c)
      then bind (effectFn call (ceffect (computeds s c)) s)
             (\<lambda>r s1.
                let s2 = s1\<lparr>computeds := (computeds s1)(c := (computeds s1 c)\<lparr>cvalue := r\<rparr>)\<rparr>;
                    s3 = s2\<lparr>computeds := (computeds s2)(c := (computeds s2 c)\<lparr>dirty := False\<rparr>)\<rparr>
                in ok (cvalue (computeds s3 c)) s3)
      else ok (cvalue (computeds s c)) s)"

section \<open>Running a function of the user\<close>

text \<open>
  \<open>exec n p s\<close> runs \<open>p\<close> in \<open>s\<close>; \<open>n\<close> bounds the number of operations on any path of
  nested calls, and the outcome is \<open>None\<close> when the bound is reached.
\<close>

primrec exec :: "nat \<Rightarrow> prog \<Rightarrow> state \<Rightarrow> val outcome" where
  "exec 0 = (\<lambda>p s. None)"
| "exec (Suc n) = (\<lambda>p s.
     case p of
       Ret v \<Rightarrow> ok v s
     | Raise e \<Rightarrow> throw e s
     | Get x k f \<Rightarrow>
         (case js_get x k s of
            (Throw e, s1) \<Rightarrow> throw e s1
          | (Normal v, s1) \<Rightarrow> exec n (f v) s1)
     | Put x k v rest \<Rightarrow> bind (js_set (exec n) x k v s) (\<lambda>u s1. exec n rest s1)
     | Delete x k f \<Rightarrow> bind (js_delete (exec n) x k s) (\<lambda>b s1. exec n (f b) s1)
     | Call g this args f \<Rightarrow> bind (call_function (exec n) g this args s) (\<lambda>v s1. exec n (f v) s1)
     | CValue c f \<Rightarrow> bind (computed_value (exec n) c s) (\<lambda>v s1. exec n (f v) s1)
     | Invoke e f \<Rightarrow> bind (effectFn (exec n) e s) (\<lambda>v s1. exec n (f v) s1)
     | PRGet target k f \<Rightarrow>
         (case proxyRefs_get target k s of
            (Throw e, s1) \<Rightarrow> throw e s1
          | (Normal v, s1) \<Rightarrow> exec n (f v) s1)
     | PRPut target k v rest \<Rightarrow>
         bind (proxyRefs_set (exec n) target k v s) (\<lambda>b s1. exec n rest s1))"

section \<open>The functions of the interface\<close>

text \<open>\<^verbatim>\<open>effect(fn, options)\<close>, lines 240 to 256; the handle it returns is the identity
  of the new effect function.\<close>

definition effect :: "nat \<Rightarrow> prog \<Rightarrow> options \<Rightarrow> state \<Rightarrow> eid outcome" where
  "effect n f os s =
     (let e = next_effect s;
          s1 = s\<lparr>effects := (effects s)(e := \<lparr>fn = f, opts = os, deps = []\<rparr>),
                 next_effect := Suc e\<rparr>
      in if \<not> lazy os then bind (effectFn (exec n) e s1) (\<lambda>r s2. ok e s2)
         else ok e s1)"

text \<open>Calling the handle: \<^verbatim>\<open>effectFn()\<close>.\<close>

definition invoke :: "nat \<Rightarrow> eid \<Rightarrow> state \<Rightarrow> val outcome" where
  "invoke n e s = effectFn (exec n) e s"

text \<open>\<^verbatim>\<open>computed(getter)\<close>, lines 293 to 314, and reading \<^verbatim>\<open>.value\<close> of the result.\<close>

definition computed :: "prog \<Rightarrow> state \<Rightarrow> cid \<times> state" where
  "computed getter s =
     (let c = next_computed s;
          e = next_effect s
      in (c, s\<lparr>effects := (effects s)(e := \<lparr>fn = getter,
                                             opts = \<lparr>lazy = True, scheduler = Some (SchedComputed c)\<rparr>,
                                             deps = []\<rparr>),
               next_effect := Suc e,
               computeds := (computeds s)(c := \<lparr>cvalue = VUndef, dirty = True, ceffect = e\<rparr>),
               next_computed := Suc c\<rparr>))"

definition read_computed :: "nat \<Rightarrow> cid \<Rightarrow> state \<Rightarrow> val outcome" where
  "read_computed n c s = computed_value (exec n) c s"

text \<open>
  \<^verbatim>\<open>watch(source, cb)\<close>, lines 317 to 339, for a source that is a function.  The
  function has two parameters; \<^verbatim>\<open>options\<close> in line 334 is a global identifier.
\<close>

definition watch :: "nat \<Rightarrow> prog \<Rightarrow> (val \<Rightarrow> val \<Rightarrow> prog) \<Rightarrow> state \<Rightarrow> unit outcome" where
  "watch n source callback s =
     (let w = next_watch s;
          e = next_effect s;
          s1 = s\<lparr>effects := (effects s)(e := \<lparr>fn = source,
                                              opts = \<lparr>lazy = True, scheduler = Some (SchedWatch w)\<rparr>,
                                              deps = []\<rparr>),
                 next_effect := Suc e,
                 watches := (watches s)(w := \<lparr>oldValue = VUndef, newValue = VUndef,
                                              weffect = e, cb = callback\<rparr>),
                 next_watch := Suc w\<rparr>
      in case global_options s1 of
           None \<Rightarrow> throw ReferenceError s1
         | Some immediate \<Rightarrow>
             (if immediate then job (exec n) w s1
              else bind (effectFn (exec n) e s1)
                     (\<lambda>r s2. ok () (s2\<lparr>watches := (watches s2)(w := (watches s2 w)\<lparr>oldValue := r\<rparr>)\<rparr>))))"

text \<open>
  The callback that \<^verbatim>\<open>queueJob\<close> hands to \<^verbatim>\<open>p.then\<close>, lines 537 to 544.
  \<^verbatim>\<open>queue.forEach\<close> visits the jobs in insertion order, also the ones added while it
  runs; nothing deletes from \<^verbatim>\<open>queue\<close>.  The \<^verbatim>\<open>finally\<close> block runs on both exits;
  its second statement assigns the property \<^verbatim>\<open>clear\<close> of the Set.
\<close>

primrec queue_forEach :: "nat \<Rightarrow> nat \<Rightarrow> nat \<Rightarrow> state \<Rightarrow> unit outcome" where
  "queue_forEach 0 n i s = None"
| "queue_forEach (Suc m) n i s =
     (if i < length (queue s)
      then bind (effectFn (exec n) (queue s ! i) s) (\<lambda>r s1. queue_forEach m n (Suc i) s1)
      else ok () s)"

definition flushJobs :: "nat \<Rightarrow> state \<Rightarrow> unit outcome" where
  "flushJobs n s =
     (case queue_forEach n n 0 s of
        None \<Rightarrow> None
      | Some (r, s1) \<Rightarrow> Some (r, s1\<lparr>isFlushing := False, queue_clear := Some (VNum 0)\<rparr>))"

text \<open>
  One turn of the microtask queue: the oldest pending callback runs; what it throws
  rejects the promise that \<^verbatim>\<open>then\<close> returned and reaches no caller.
\<close>

definition run_microtask :: "nat \<Rightarrow> state \<Rightarrow> state option" where
  "run_microtask n s =
     (if microtasks s = 0 then Some s
      else case flushJobs n (s\<lparr>microtasks := microtasks s - 1\<rparr>) of
             None \<Rightarrow> None
           | Some (r, s1) \<Rightarrow> Some s1)"

text \<open>A write, a read and a method call of the top level: no effect is running.\<close>

definition run :: "nat \<Rightarrow> prog \<Rightarrow> state \<Rightarrow> val outcome" where
  "run n p s = exec n p s"

section \<open>The initial state\<close>

text \<open>
  The state after the module has been loaded (lines 118, 237 to 239, 258, 280 and 529
  to 531): nothing is tracked, no effect exists, tracking is enabled, the queue is
  empty.  Every identity denotes an empty plain object until one is stored.
\<close>

definition empty_obj :: obj where
  "empty_obj = \<lparr>is_array = False, props = (\<lambda>k. None), alength = 0\<rparr>"

definition init_state :: state where
  "init_state =
     \<lparr>heap = (\<lambda>r. empty_obj),
      bucket = (\<lambda>r. None),
      activeEffect = None,
      effectStack = [],
      effects = (\<lambda>e. \<lparr>fn = Ret VUndef, opts = \<lparr>lazy = False, scheduler = None\<rparr>, deps = []\<rparr>),
      next_effect = 0,
      shouldTrack = True,
      computeds = (\<lambda>c. \<lparr>cvalue = VUndef, dirty = True, ceffect = 0\<rparr>),
      next_computed = 0,
      watches = (\<lambda>w. \<lparr>oldValue = VUndef, newValue = VUndef, weffect = 0,
                        cb = (\<lambda>a b. Ret VUndef)\<rparr>),
      next_watch = 0,
      queue = [],
      isFlushing = False,
      queue_clear = None,
      microtasks = 0,
      global_newVal = None,
      global_options = None,
      trace = []\<rparr>"

text \<open>A plain object and an array literal stored under an identity.\<close>

definition plain_object :: "(key \<times> val) list \<Rightarrow> obj" where
  "plain_object kvs = \<lparr>is_array = False, props = map_of kvs, alength = 0\<rparr>"

definition array_object :: "val list \<Rightarrow> obj" where
  "array_object vs =
     \<lparr>is_array = True,
      props = (\<lambda>k. case k of Idx i \<Rightarrow> (if i < length vs then Some (vs ! i) else None) | _ \<Rightarrow> None),
      alength = length vs\<rparr>"

text \<open>\<^verbatim>\<open>ob.raw = ob\<close> for the object stored under \<open>r\<close>.\<close>

definition with_raw :: "ref \<Rightarrow> obj \<Rightarrow> obj" where
  "with_raw r ob = ob\<lparr>props := (props ob)(Name ''raw'' := Some (VObj r))\<rparr>"

definition store :: "ref \<Rightarrow> obj \<Rightarrow> state \<Rightarrow> state" where
  "store r ob s = s\<lparr>heap := (heap s)(r := ob)\<rparr>"

section \<open>Functions of the user that the statements below run\<close>

text \<open>The default \<^verbatim>\<open>options = {}\<close> of line 240, and \<^verbatim>\<open>{lazy: true}\<close>.\<close>

definition no_options :: options where
  "no_options = \<lparr>lazy = False, scheduler = None\<rparr>"

definition lazy_options :: options where
  "lazy_options = \<lparr>lazy = True, scheduler = None\<rparr>"

text \<open>\<^verbatim>\<open>() => p[k]\<close>.\<close>

definition read_fn :: "val \<Rightarrow> key \<Rightarrow> prog" where
  "read_fn p k = Get p k Ret"

text \<open>\<^verbatim>\<open>p[k] = v\<close> as a statement of the top level.\<close>

definition write_stmt :: "val \<Rightarrow> key \<Rightarrow> val \<Rightarrow> prog" where
  "write_stmt p k v = Put p k v (Ret VUndef)"

text \<open>\<^verbatim>\<open>() => p[k]++\<close>: the read, then the write of the value plus one.\<close>

definition to_numeric :: "val \<Rightarrow> val" where
  "to_numeric v = (case v of VNum n \<Rightarrow> VNum n | VBool b \<Rightarrow> VNum (if b then 1 else 0)
                   | VNull \<Rightarrow> VNum 0 | _ \<Rightarrow> VNaN)"

definition plus_one :: "val \<Rightarrow> val" where
  "plus_one v = (case to_numeric v of VNum n \<Rightarrow> VNum (n + 1) | _ \<Rightarrow> VNaN)"

definition increment_fn :: "val \<Rightarrow> key \<Rightarrow> prog" where
  "increment_fn p k = Get p k (\<lambda>v. Put p k (plus_one v) (Ret (to_numeric v)))"

text \<open>\<^verbatim>\<open>() => p[c] ? p[x] : p[y]\<close>.\<close>

definition branch_fn :: "val \<Rightarrow> key \<Rightarrow> key \<Rightarrow> key \<Rightarrow> prog" where
  "branch_fn p c x y = Get p c (\<lambda>v. if truthy v then Get p x Ret else Get p y Ret)"

text \<open>The key that \<open>branch_fn\<close> reads after the condition, in a state.\<close>

definition taken_key :: "state \<Rightarrow> ref \<Rightarrow> key \<Rightarrow> key \<Rightarrow> key \<Rightarrow> key" where
  "taken_key s t c x y = (if truthy (fst (get_handler t c s)) then x else y)"


text \<open>\<^verbatim>\<open>() => c.value\<close> for a computed \<open>c\<close>.\<close>

definition read_computed_fn :: "cid \<Rightarrow> prog" where
  "read_computed_fn c = CValue c Ret"

text \<open>\<^verbatim>\<open>() => arr.push(v)\<close>: the read of \<^verbatim>\<open>push\<close>, then the call on \<^verbatim>\<open>arr\<close>.\<close>

definition push_fn :: "val \<Rightarrow> val \<Rightarrow> prog" where
  "push_fn arr v = Get arr (Name ''push'') (\<lambda>f. Call f arr [v] Ret)"

text \<open>\<^verbatim>\<open>() => arr.pop()\<close>.\<close>

definition pop_fn :: "val \<Rightarrow> prog" where
  "pop_fn arr = Get arr (Name ''pop'') (\<lambda>f. Call f arr [] Ret)"

text \<open>\<^verbatim>\<open>() => { if (p[k] === undefined) throw 0 }\<close>.\<close>

definition throw_if_missing_fn :: "val \<Rightarrow> key \<Rightarrow> prog" where
  "throw_if_missing_fn p k =
     Get p k (\<lambda>v. if v = VUndef then Raise (Thrown (VNum 0)) else Ret VUndef)"

text \<open>\<^verbatim>\<open>() => { p[k]; delete p[k] }\<close>.\<close>

definition read_delete_fn :: "val \<Rightarrow> key \<Rightarrow> prog" where
  "read_delete_fn p k = Get p k (\<lambda>v. Delete p k (\<lambda>b. Ret VUndef))"

section \<open>Definitions for the statements and proofs\<close>

text \<open>Entering an effect function (lines 243 to 245, with the record of the call of
  \<^verbatim>\<open>fn\<close>) and leaving it (lines 247 and 248).\<close>

definition enter :: "eid \<Rightarrow> state \<Rightarrow> state" where
  "enter e s = (cleanup e s)\<lparr>activeEffect := Some e, effectStack := effectStack s @ [e], trace := trace s @ [Ran e]\<rparr>"

definition leave :: "state \<Rightarrow> state" where
  "leave s = s\<lparr>effectStack := butlast (effectStack s),
              activeEffect := (if butlast (effectStack s) = [] then None else Some (last (butlast (effectStack s))))\<rparr>"

text \<open>The reverse index of an effect covers its memberships: every Set that holds the
  effect is listed in its \<^verbatim>\<open>deps\<close>.\<close>

definition index_covers :: "state \<Rightarrow> eid \<Rightarrow> bool" where
  "index_covers s e = (\<forall>t k. e \<in> set (dep_set s t k) \<longrightarrow> (t, k) \<in> set (deps (effects s e)))"

text \<open>The reverse index of every effect covers its memberships, and the functions
  \<open>call\<close> that keep it so.\<close>

definition index_ok :: "state \<Rightarrow> bool" where
  "index_ok s = (\<forall>e. index_covers s e)"

definition keeps_index :: "(prog \<Rightarrow> state \<Rightarrow> val outcome) \<Rightarrow> bool" where
  "keeps_index call = (\<forall>p s r s'. index_ok s \<longrightarrow> call p s = Some (r, s') \<longrightarrow> index_ok s')"

text \<open>The calls of \<^verbatim>\<open>track\<close> for a list of reads, in order.\<close>

definition track_all :: "(ref \<times> key) list \<Rightarrow> state \<Rightarrow> state" where
  "track_all ks s = fold (\<lambda>tk. track (fst tk) (snd tk)) ks s"

text \<open>Lines 307 and 308 with the result \<open>v\<close> of \<^verbatim>\<open>effectFn()\<close>.\<close>

definition settle :: "cid \<Rightarrow> val \<Rightarrow> state \<Rightarrow> state" where
  "settle c v s = s\<lparr>computeds := (computeds s)(c := (computeds s c)\<lparr>cvalue := v, dirty := False\<rparr>)\<rparr>"

text \<open>
  The states in which the effect \<open>e\<close> with the function \<^verbatim>\<open>() => p[k]++\<close> is about to
  run on a plain object \<open>t\<close> whose \<^verbatim>\<open>raw\<close> is itself and whose \<open>k\<close> is a number:
  either nothing is tracked on \<open>t\<close> yet, or \<open>e\<close> is the one subscriber of \<open>k\<close> and
  \<^verbatim>\<open>raw\<close>.
\<close>

definition looping :: "state \<Rightarrow> eid \<Rightarrow> ref \<Rightarrow> key \<Rightarrow> bool" where
  "looping s e t k =
     (\<not> is_array (heap s t) \<and> props (heap s t) (Name ''raw'') = Some (VObj t)
      \<and> (\<exists>v. props (heap s t) k = Some (VNum v)) \<and> k \<noteq> Name ''raw''
      \<and> fn (effects s e) = increment_fn (VProxy t) k \<and> scheduler (opts (effects s e)) = None
      \<and> ((bucket s t = None \<and> deps (effects s e) = [])
         \<or> (bucket s t = Some [(k, [e]), (Name ''raw'', [e])]
            \<and> deps (effects s e) = [(t, k), (t, Name ''raw'')])))"

text \<open>The objects and states of the examples.\<close>

definition branch_object :: "bool \<Rightarrow> obj" where
  "branch_object b =
     with_raw 1 (plain_object [(Name ''ok'', VBool b), (Name ''a'', VNum 1), (Name ''b'', VNum 2)])"

definition branch_example :: state where
  "branch_example =
     (store 1 (branch_object True) init_state)
       \<lparr>effects := (effects init_state)(0 := \<lparr>fn = branch_fn (VProxy 1) (Name ''ok'') (Name ''a'') (Name ''b''),
                                              opts = lazy_options, deps = []\<rparr>),
        next_effect := 1\<rparr>"



section \<open>Evaluation\<close>

text \<open>The definitions, for evaluating a run on a given state by rewriting.\<close>

lemmas engine =
  bind_def ok_def throw_def set_add_def set_delete_def depsMap_get_def bucket_get_def dep_set_def
  track_def bucket_delete_def cleanup_def get_result_def get_handler_def js_get_def is_object_def
  proxyRefs_get_def queueJob_def effectFn_def job_def run_scheduler_def run_one_def
  key_ge_def add_all_def add_inactive_def trigger_def receiver_raw_def set_type_def
  set_handler_def deleteProperty_handler_def js_set_def js_delete_def proxyRefs_set_def
  to_length_def push_body_def pop_body_def originMethod_def is_search_def
  arrayInstrumentations_def call_function_def computed_value_def effect_def invoke_def
  computed_def read_computed_def watch_def flushJobs_def run_microtask_def run_def
  empty_obj_def init_state_def plain_object_def array_object_def store_def with_raw_def
  method_of_name_def method_of_key_def strict_eq_def truthy_def reflect_get_def hasOwn_def
  to_array_length_def reflect_set_def reflect_delete_def Let_def
  no_options_def lazy_options_def read_fn_def write_stmt_def to_numeric_def plus_one_def
  increment_fn_def branch_fn_def taken_key_def read_computed_fn_def push_fn_def
  pop_fn_def throw_if_missing_fn_def read_delete_fn_def

section \<open>Writes through the reactive proxy\<close>

text \<open>
  Claim C1.  The claim: a write through the proxy of a value that differs from the old
  one re-runs each subscribed effect once.  The run below is
  \<^verbatim>\<open>obj = {k: 1}; effect(() => data.k); data.k = 2\<close>.  The effect runs once when it is
  created and is subscribed to \<^verbatim>\<open>k\<close>; the write stores 2 and runs nothing: the
  \<^verbatim>\<open>get\<close> trap has no case for \<^verbatim>\<open>raw\<close>, so \<^verbatim>\<open>receiver.raw\<close> in line 160 is
  \<^verbatim>\<open>undefined\<close> and \<^verbatim>\<open>trigger\<close> is not called.
\<close>

theorem write_through_proxy_reruns_nothing:
  "\<exists>s s'. effect 3 (read_fn (VProxy 1) (Name ''k'')) no_options
             (store 1 (plain_object [(Name ''k'', VNum 1)]) init_state) = Some (Normal 0, s)
     \<and> dep_set s 1 (Name ''k'') = [0] \<and> trace s = [Ran 0]
     \<and> run 3 (write_stmt (VProxy 1) (Name ''k'') (VNum 2)) s = Some (Normal VUndef, s')
     \<and> reflect_get (heap s' 1) (Name ''k'') = VNum 2 \<and> trace s' = [Ran 0]"
  by (simp add: engine eval_nat_numeral)

section \<open>The handle of an effect\<close>

text \<open>
  Claim C4.  The claim: the handle returned by \<^verbatim>\<open>effect(fn, options)\<close>, when invoked,
  re-runs \<^verbatim>\<open>fn\<close> and returns its result, so that the cached value of a computed is
  what its getter returned.  The runs below are
  \<^verbatim>\<open>h = effect(() => 1, {lazy: true}); h()\<close> and \<^verbatim>\<open>computed(() => 1).value\<close>: the
  function runs, and the handle and the computed give \<^verbatim>\<open>undefined\<close>.
\<close>

theorem effect_handle_returns_undefined:
  "(\<exists>s s'. effect 2 (Ret (VNum 1)) lazy_options init_state = Some (Normal 0, s)
      \<and> trace s = []
      \<and> invoke 2 0 s = Some (Normal VUndef, s') \<and> trace s' = [Ran 0])
   \<and> (\<exists>s'. read_computed 2 (fst (computed (Ret (VNum 1)) init_state))
               (snd (computed (Ret (VNum 1)) init_state)) = Some (Normal VUndef, s')
      \<and> trace s' = [Ran 0] \<and> cvalue (computeds s' 0) = VUndef \<and> \<not> dirty (computeds s' 0))"
  by (simp add: engine eval_nat_numeral)

section \<open>Writing the length of an array\<close>

text \<open>
  Claim C6.  The claim: a write of a new length to a reactive array runs every effect
  tracked against an index at or beyond it.  The runs below are
  \<^verbatim>\<open>arr = [1, 2, 3]; effect(() => data[2]); data.length = 0\<close>, once as it stands and
  once after \<^verbatim>\<open>arr.raw = arr\<close>.  As it stands the write does not call \<^verbatim>\<open>trigger\<close>
  (\<^verbatim>\<open>receiver.raw\<close> in line 160 is \<^verbatim>\<open>undefined\<close>) and the effect does not run again.  With \<^verbatim>\<open>raw\<close> the write reaches
  \<^verbatim>\<open>trigger\<close>, which throws a ReferenceError at \<^verbatim>\<open>newVal\<close> in line 218 and runs
  nothing.  When moreover the global scope binds \<^verbatim>\<open>newVal\<close> to 0, \<^verbatim>\<open>trigger\<close>
  returns with the effect in \<^verbatim>\<open>effectsToRun\<close>, added after the loop of lines 200 to
  206 has finished; the write returns and the effect has run once, at its creation.
\<close>

theorem length_write_runs_no_index_effect:
  "(\<exists>s s'. effect 3 (read_fn (VProxy 1) (Idx 2)) no_options
              (store 1 (array_object [VNum 1, VNum 2, VNum 3]) init_state) = Some (Normal 0, s)
      \<and> dep_set s 1 (Idx 2) = [0] \<and> trace s = [Ran 0]
      \<and> run 3 (write_stmt (VProxy 1) (Name ''length'') (VNum 0)) s = Some (Normal VUndef, s')
      \<and> alength (heap s' 1) = 0 \<and> trace s' = [Ran 0])
   \<and> (\<exists>s s1 s2 s3. effect 3 (read_fn (VProxy 1) (Idx 2)) no_options
               (store 1 (with_raw 1 (array_object [VNum 1, VNum 2, VNum 3])) init_state)
                 = Some (Normal 0, s)
      \<and> dep_set s 1 (Idx 2) = [0] \<and> trace s = [Ran 0]
      \<and> run 3 (write_stmt (VProxy 1) (Name ''length'') (VNum 0)) s = Some (Throw ReferenceError, s1)
      \<and> alength (heap s1 1) = 0 \<and> trace s1 = [Ran 0]
      \<and> trigger (exec 3) 1 (Name ''length'') ADD (s\<lparr>global_newVal := Some 0\<rparr>) = Some (Normal [0], s2)
      \<and> trace s2 = [Ran 0]
      \<and> run 3 (write_stmt (VProxy 1) (Name ''length'') (VNum 0)) (s\<lparr>global_newVal := Some 0\<rparr>)
           = Some (Normal VUndef, s3)
      \<and> alength (heap s3 1) = 0 \<and> trace s3 = [Ran 0])"
  by (simp add: engine eval_nat_numeral)

section \<open>watch\<close>

text \<open>
  Claim C7.  The claim: \<^verbatim>\<open>watch(source, cb, {immediate: true})\<close> calls \<^verbatim>\<open>cb\<close> once at
  once with the initial value, and without \<^verbatim>\<open>immediate\<close> calls it at the first change.
  \<^verbatim>\<open>watch\<close> has two parameters, so the third argument is dropped, and with no global
  \<^verbatim>\<open>options\<close> the call \<^verbatim>\<open>watch(() => a.value, cb)\<close> on \<^verbatim>\<open>a = {value: 1}\<close> throws a
  ReferenceError at line 334 for every callback: the getter has not run, nothing is
  tracked and the callback is not called.  When the global scope binds \<^verbatim>\<open>options\<close>
  to an object whose \<^verbatim>\<open>immediate\<close> is true, the callback is called once, with
  \<^verbatim>\<open>undefined\<close> for the new value, since \<^verbatim>\<open>effectFn()\<close> returns nothing.
\<close>

theorem watch_throws_reference_error:
  "(\<exists>s'. watch n (read_fn (VProxy 1) (Name ''value'')) callback
            (store 1 (plain_object [(Name ''value'', VNum 1)]) init_state)
              = Some (Throw ReferenceError, s')
      \<and> trace s' = [] \<and> dep_set s' 1 (Name ''value'') = [])
   \<and> (\<exists>s'. watch 3 (read_fn (VProxy 1) (Name ''value'')) (\<lambda>a b. Ret VUndef)
            ((store 1 (plain_object [(Name ''value'', VNum 1)]) init_state)
               \<lparr>global_options := Some True\<rparr>)
              = Some (Normal (), s')
      \<and> trace s' = [Ran 0, Called 0 VUndef VUndef] \<and> dep_set s' 1 (Name ''value'') = [0])"
  by (simp add: engine eval_nat_numeral)

section \<open>The job queue after a flush\<close>

text \<open>
  Claim C8.  The claim: when a flush finishes the pending set is empty and the flag is
  false, so a job does not run again in a later flush unless it is queued again.  Below,
  two lazy effects 0 and 1 are jobs.  Job 0 is queued and the flush runs it; afterwards
  the flag is false, the property \<^verbatim>\<open>clear\<close> of the Set is 0 (line 542), and job 0 is
  still in the Set.  Job 1 is queued and the next flush runs job 0 again before job 1.
\<close>

theorem flush_leaves_queue_populated:
  "\<exists>s1 s2 s3 s4. effect 2 (Ret VUndef) lazy_options init_state = Some (Normal 0, s1)
     \<and> effect 2 (Ret VUndef) lazy_options s1 = Some (Normal 1, s2)
     \<and> run_microtask 3 (queueJob 0 s2) = Some s3
     \<and> queue s3 = [0] \<and> \<not> isFlushing s3 \<and> queue_clear s3 = Some (VNum 0) \<and> trace s3 = [Ran 0]
     \<and> run_microtask 3 (queueJob 1 s3) = Some s4
     \<and> trace s4 = [Ran 0, Ran 0, Ran 1] \<and> queue s4 = [0, 1]"
  by (simp add: engine eval_nat_numeral)

section \<open>The mutating array methods\<close>

text \<open>
  Claim C9.  The claim: during \<^verbatim>\<open>push\<close> and its siblings no dependency is recorded,
  and the flag is true again on every exit.  First run:
  \<^verbatim>\<open>arr = [7]; effect(() => data.push(1))\<close>; the only read of \<^verbatim>\<open>length\<close> is the one
  inside \<^verbatim>\<open>push\<close>, and the effect is subscribed to \<^verbatim>\<open>length\<close> afterwards, since
  \<^verbatim>\<open>track\<close> does not read \<^verbatim>\<open>shouldTrack\<close>.  Second run: \<^verbatim>\<open>arr = [7]\<close>, the effect
  \<^verbatim>\<open>() => { if (data[0] === undefined) throw 0 }\<close>, then \<^verbatim>\<open>data.pop()\<close> at the top
  level; the deletion of index 0 inside \<^verbatim>\<open>pop\<close> runs the effect, which throws, and
  the flag is left false (lines 284 to 286 have no \<^verbatim>\<open>finally\<close>).
\<close>

theorem push_tracks_and_leaks_flag:
  "(\<exists>s. effect 6 (push_fn (VProxy 1) (VNum 1)) no_options
           (store 1 (array_object [VNum 7]) init_state) = Some (Normal 0, s)
      \<and> dep_set s 1 (Name ''length'') = [0] \<and> alength (heap s 1) = 2)
   \<and> (\<exists>s s'. effect 3 (throw_if_missing_fn (VProxy 1) (Idx 0)) no_options
               (store 1 (array_object [VNum 7]) init_state) = Some (Normal 0, s)
      \<and> shouldTrack s
      \<and> run 8 (pop_fn (VProxy 1)) s = Some (Throw (Thrown (VNum 0)), s')
      \<and> \<not> shouldTrack s')"
  by (simp add: engine eval_nat_numeral)

section \<open>proxyRefs\<close>

lemma heap_track: "heap (track t k s) = heap s"
  by (simp add: track_def Let_def split: option.splits)

text \<open>
  Claim C10.  For a target wrapped by \<^verbatim>\<open>proxyRefs\<close> (a raw object or a reactive
  proxy) and a key whose current value, as \<^verbatim>\<open>target[key]\<close> gives it, is \<^verbatim>\<open>null\<close> or
  \<^verbatim>\<open>undefined\<close>: reading the key through the wrapper throws a TypeError instead of
  returning the value, and writing it through the wrapper throws a TypeError and stores
  nothing; the heap is the one before the call.
\<close>

theorem proxyRefs_nullish_throws:
  assumes "is_object target"
      and "js_get target k s = (Normal v, s1)"
      and "v = VUndef \<or> v = VNull"
    shows "proxyRefs_get target k s = (Throw TypeError, s1)
         \<and> proxyRefs_set call target k newv s = Some (Throw TypeError, s1)
         \<and> heap s1 = heap s"
proof -
  have "heap s1 = heap s"
    using assms(2) heap_track
    by (auto simp: js_get_def get_handler_def Let_def split: val.splits option.splits if_splits)
  moreover have "js_get v (Name ''_v_isRef'') s1 = (Throw TypeError, s1)"
    using assms(3) by (auto simp: js_get_def)
  ultimately show ?thesis
    using assms(1,2) by (simp add: proxyRefs_get_def proxyRefs_set_def throw_def)
qed

theorem proxyRefs_nullish_throws_witness:
  "proxyRefs_get (VObj 1) (Name ''a'') (store 1 (plain_object [(Name ''a'', VNull)]) init_state)
     = (Throw TypeError, store 1 (plain_object [(Name ''a'', VNull)]) init_state)
   \<and> proxyRefs_set (exec 0) (VObj 1) (Name ''b'') (VNum 5)
       (store 1 (plain_object [(Name ''a'', VNull)]) init_state)
     = Some (Throw TypeError, store 1 (plain_object [(Name ''a'', VNull)]) init_state)"
  using proxyRefs_nullish_throws [of "VObj 1" "Name ''a''"
          "store 1 (plain_object [(Name ''a'', VNull)]) init_state" VNull
          "store 1 (plain_object [(Name ''a'', VNull)]) init_state" "exec 0" "VNum 5"]
        proxyRefs_nullish_throws [of "VObj 1" "Name ''b''"
          "store 1 (plain_object [(Name ''a'', VNull)]) init_state" VUndef
          "store 1 (plain_object [(Name ''a'', VNull)]) init_state" "exec 0" "VNum 5"]
  by (simp add: store_def plain_object_def init_state_def reflect_get_def js_get_def is_object_def)

text \<open>The current value of a key of a raw object, and of a reactive proxy, is what the
  raw object holds; for the proxy of an array the name of an array method is answered
  with the function of \<^verbatim>\<open>arrayInstrumentations\<close>.\<close>

lemma js_get_raw: "js_get (VObj t) k s = (Normal (reflect_get (heap s t) k), s)"
  by (simp add: js_get_def)

lemma js_get_proxy:
  "\<not> is_array (heap s t) \<or> method_of_key k = None \<Longrightarrow>
   js_get (VProxy t) k s = (Normal (reflect_get (heap s t) k), track t k s)"
  by (auto simp: js_get_def get_handler_def get_result_def Let_def heap_track)

section \<open>The dependency store under track and cleanup\<close>

lemma bucket_get_delete:
  "bucket_get (bucket_delete e tk b) t k =
     (if (t, k) = tk then set_delete e (bucket_get b t k) else bucket_get b t k)"
  by (cases tk)
     (auto simp: bucket_get_def bucket_delete_def depsMap_get_def set_delete_def
        AList.update_conv' split: option.splits)

lemma set_delete_idem: "set_delete e (set_delete e xs) = set_delete e xs"
  by (simp add: set_delete_def)

lemma bucket_get_fold_delete:
  "bucket_get (fold (bucket_delete e) ds b) t k =
     (if (t, k) \<in> set ds then set_delete e (bucket_get b t k) else bucket_get b t k)"
proof (induction ds arbitrary: b)
  case Nil
  then show ?case by simp
next
  case (Cons d ds)
  then show ?case
    by (auto simp: bucket_get_delete set_delete_idem)
qed

lemma dep_set_cleanup:
  "dep_set (cleanup e s) t k =
     (if (t, k) \<in> set (deps (effects s e)) then set_delete e (dep_set s t k) else dep_set s t k)"
  by (simp add: dep_set_def cleanup_def bucket_get_fold_delete)

lemma dep_set_track:
  "activeEffect s = Some e \<Longrightarrow>
   dep_set (track t k s) t' k' =
     (if t' = t \<and> k' = k then set_add e (dep_set s t k) else dep_set s t' k')"
  by (auto simp: dep_set_def track_def bucket_get_def depsMap_get_def Let_def AList.update_conv'
      split: option.splits)

lemma deps_track:
  "activeEffect s = Some e \<Longrightarrow>
   deps (effects (track t k s) e') = (if e' = e then deps (effects s e) @ [(t, k)] else deps (effects s e'))"
  by (simp add: track_def Let_def)

lemma track_frame:
  "heap (track t k s) = heap s" "activeEffect (track t k s) = activeEffect s"
  "effectStack (track t k s) = effectStack s" "trace (track t k s) = trace s"
  "fn (effects (track t k s) e') = fn (effects s e')"
  "opts (effects (track t k s) e') = opts (effects s e')"
  "computeds (track t k s) = computeds s"
  by (simp_all add: track_def Let_def split: option.splits)

lemma cleanup_frame:
  "heap (cleanup e s) = heap s" "activeEffect (cleanup e s) = activeEffect s"
  "effectStack (cleanup e s) = effectStack s" "trace (cleanup e s) = trace s"
  "fn (effects (cleanup e s) e') = fn (effects s e')"
  "opts (effects (cleanup e s) e') = opts (effects s e')"
  "computeds (cleanup e s) = computeds s"
  "deps (effects (cleanup e s) e') = (if e' = e then [] else deps (effects s e'))"
  by (simp_all add: cleanup_def)

lemma get_handler_eq: "get_handler t k s = (get_result (heap s t) k, track t k s)"
  by (simp add: get_handler_def Let_def track_frame)

lemma set_set_add: "set (set_add x xs) = insert x (set xs)"
  by (auto simp: set_add_def)

lemma set_set_delete: "set (set_delete x xs) = set xs - {x}"
  by (auto simp: set_delete_def)

lemma filter_set_add: "filter (\<lambda>a. a \<noteq> e) (set_add e xs) = filter (\<lambda>a. a \<noteq> e) xs"
  by (simp add: set_add_def)

lemma filter_set_delete: "filter (\<lambda>a. a \<noteq> e) (set_delete e xs) = filter (\<lambda>a. a \<noteq> e) xs"
  by (simp add: set_delete_def)

lemma effectFn_enter_leave:
  "effectFn call e s = bind (call (fn (effects s e)) (enter e s)) (\<lambda>r s3. ok VUndef (leave s3))"
  by (simp add: effectFn_def enter_def leave_def Let_def cleanup_frame)

lemma branch_run:
  assumes f: "fn (effects s e) = branch_fn (VProxy t) c x y"
  shows "effectFn (exec (Suc (Suc (Suc n)))) e s
           = Some (Normal VUndef, leave (track t (taken_key s t c x y) (track t c (enter e s))))"
proof -
  have h: "heap (enter e s) = heap s" by (simp add: enter_def cleanup_frame)
  show ?thesis
    by (simp add: effectFn_enter_leave f branch_fn_def js_get_def get_handler_eq h track_frame
        taken_key_def bind_def ok_def)
qed


lemma leave_frame:
  "dep_set (leave s) t k = dep_set s t k" "heap (leave s) = heap s" "trace (leave s) = trace s"
  "effects (leave s) = effects s" "computeds (leave s) = computeds s"
  by (simp_all add: leave_def dep_set_def)

lemma enter_frame:
  "dep_set (enter e s) t k = dep_set (cleanup e s) t k" "heap (enter e s) = heap s"
  "trace (enter e s) = trace s @ [Ran e]" "activeEffect (enter e s) = Some e"
  "effects (enter e s) = effects (cleanup e s)" "computeds (enter e s) = computeds s"
  "effectStack (enter e s) = effectStack s @ [e]"
  by (simp_all add: enter_def dep_set_def cleanup_frame)

lemma leave_enter_stack:
  "effectStack (leave (track t k (track t' k' (enter e s)))) = effectStack s"
  "activeEffect (leave (track t k (track t' k' (enter e s)))) =
     (if effectStack s = [] then None else Some (last (effectStack s)))"
  by (simp_all add: leave_def track_frame enter_frame)

lemma not_member_cleanup:
  assumes "index_covers s e"
  shows "e \<notin> set (dep_set (cleanup e s) t k)"
  using assms by (auto simp: index_covers_def dep_set_cleanup set_set_delete)

lemma filter_cleanup:
  "filter (\<lambda>a. a \<noteq> e) (dep_set (cleanup e s) t k) = filter (\<lambda>a. a \<noteq> e) (dep_set s t k)"
  by (simp add: dep_set_cleanup filter_set_delete)

lemma two_reads_state:
  fixes s :: state and e :: eid and t :: ref and k1 k2 :: key
  assumes "index_covers s e"
  defines "s1 \<equiv> leave (track t k2 (track t k1 (enter e s)))"
  shows "(e \<in> set (dep_set s1 t' k')) = (t' = t \<and> (k' = k1 \<or> k' = k2))"
    and "filter (\<lambda>a. a \<noteq> e) (dep_set s1 t' k') = filter (\<lambda>a. a \<noteq> e) (dep_set s t' k')"
    and "deps (effects s1 e) = [(t, k1), (t, k2)]"
    and "heap s1 = heap s" and "fn (effects s1 e) = fn (effects s e)"
    and "trace s1 = trace s @ [Ran e]"
proof -
  have a: "activeEffect (enter e s) = Some e" "activeEffect (track t k1 (enter e s)) = Some e"
    by (simp_all add: enter_frame track_frame)
  show "(e \<in> set (dep_set s1 t' k')) = (t' = t \<and> (k' = k1 \<or> k' = k2))"
    using not_member_cleanup [OF assms(1)]
    by (auto simp: s1_def leave_frame dep_set_track a set_set_add enter_frame)
  show "filter (\<lambda>a. a \<noteq> e) (dep_set s1 t' k') = filter (\<lambda>a. a \<noteq> e) (dep_set s t' k')"
    by (simp add: s1_def leave_frame dep_set_track a filter_set_add enter_frame filter_cleanup)
  show "deps (effects s1 e) = [(t, k1), (t, k2)]"
    by (simp add: s1_def leave_frame deps_track a enter_frame cleanup_frame)
  show "heap s1 = heap s" by (simp add: s1_def leave_frame track_frame enter_frame)
  show "fn (effects s1 e) = fn (effects s e)"
    by (simp add: s1_def leave_frame track_frame enter_frame cleanup_frame)
  show "trace s1 = trace s @ [Ran e]" by (simp add: s1_def leave_frame track_frame enter_frame)
qed

lemma trigger_no_subscribers:
  assumes "dep_set s t u = []"
  shows "\<exists>r. trigger call t u SET s = Some (r, s)"
proof (cases "bucket s t")
  case None
  then show ?thesis by (simp add: trigger_def ok_def)
next
  case (Some dm)
  have e: "(case depsMap_get dm u of None \<Rightarrow> [] | Some es \<Rightarrow> add_all es []) = []"
    using assms Some by (auto simp: dep_set_def bucket_get_def add_all_def split: option.splits)
  show ?thesis
  proof (cases "length_entries (global_newVal s) (activeEffect s) dm []")
    case (Inl a)
    then show ?thesis
      using Some e by (simp add: trigger_def Let_def bind_def ok_def throw_def)
  next
    case (Inr b)
    then show ?thesis
      using Some e by (simp add: trigger_def Let_def bind_def ok_def throw_def)
  qed
qed

lemma trigger_nothing:
  assumes "dep_set s t u = []" and "dep_set s t ITERATE_KEY = []"
  shows "\<exists>r. trigger call t u ty s = Some (r, s)"
proof (cases "bucket s t")
  case None
  then show ?thesis by (simp add: trigger_def ok_def)
next
  case (Some dm)
  have e: "(case depsMap_get dm u of None \<Rightarrow> [] | Some es \<Rightarrow> add_all es []) = []"
    using assms(1) Some by (auto simp: dep_set_def bucket_get_def add_all_def split: option.splits)
  have i: "(case depsMap_get dm ITERATE_KEY of None \<Rightarrow> [] | Some es \<Rightarrow> add_all es []) = []"
    using assms(2) Some by (auto simp: dep_set_def bucket_get_def add_all_def split: option.splits)
  show ?thesis
    using Some e i
    by (simp add: trigger_def Let_def bind_def ok_def throw_def split: sum.splits)
qed

lemma track_inactive: "activeEffect s = None \<Longrightarrow> track t k s = s"
  by (simp add: track_def)

lemma write_nothing_subscribed:
  assumes a: "activeEffect s = None"
      and u: "dep_set s t u = []" and i: "dep_set s t ITERATE_KEY = []"
  shows "\<exists>r s'. js_set call (VProxy t) u v s = Some (r, s') \<and> trace s' = trace s"
proof -
  have tr: "\<exists>r. trigger call t u ty (s\<lparr>heap := h\<rparr>) = Some (r, s\<lparr>heap := h\<rparr>)" for ty h
    by (rule trigger_nothing) (use u i in \<open>simp_all add: dep_set_def\<close>)
  have sh: "\<exists>r s'. set_handler call t u v Self s = Some (r, s') \<and> trace s' = trace s"
  proof (cases "set_type (heap s t) u")
    case (Inl e)
    then show ?thesis by (simp add: set_handler_def throw_def)
  next
    case (Inr ty)
    note ty = Inr
    show ?thesis
    proof (cases "reflect_set (heap s t) u v")
      case (Inl e)
      then show ?thesis using ty by (simp add: set_handler_def throw_def)
    next
      case (Inr ob')
      obtain r where r: "trigger call t u ty (s\<lparr>heap := (heap s)(t := ob')\<rparr>)
                           = Some (r, s\<lparr>heap := (heap s)(t := ob')\<rparr>)"
        using tr by blast
      show ?thesis
        using ty Inr r a
        by (cases r)
           (auto simp: set_handler_def receiver_raw_def js_get_def get_handler_eq
              track_inactive bind_def ok_def throw_def Let_def)
    qed
  qed
  then show ?thesis
    by (auto simp: js_set_def bind_def ok_def split: result.splits)
qed

section \<open>Branch-sensitive tracking\<close>

lemma empty_if_only_member:
  "filter (\<lambda>a. a \<noteq> e) xs = [] \<Longrightarrow> e \<notin> set xs \<Longrightarrow> xs = []"
  by (cases xs) (auto split: if_splits)

lemma index_covers_heap: "index_covers (s\<lparr>heap := h\<rparr>) e = index_covers s e"
  by (simp add: index_covers_def dep_set_def)

lemma taken_key_cases: "taken_key s t c x y = x \<or> taken_key s t c x y = y"
  by (simp add: taken_key_def)

text \<open>
  Claim C5.  Let the function of the effect \<open>e\<close> be \<^verbatim>\<open>() => p[c] ? p[x] : p[y]\<close> on
  the reactive proxy of \<open>t\<close>, in a state where the reverse index of \<open>e\<close> covers its
  memberships (as it does in every state reached from the initial one, see
  \<open>index_ok_reachable\<close> below).  A run of \<open>e\<close> returns, and
  afterwards \<open>e\<close> is a member of exactly the Sets of the keys read in that run, \<open>c\<close>
  and the key of the branch taken, and the reverse index covers them again.  After any
  change of the data (such as switching the branch) a second run leaves \<open>e\<close> in
  exactly the Sets of the keys read in the second run, so not in the Set of the branch
  that is no longer taken; and where \<open>e\<close> was the only subscriber of such a key \<open>u\<close>,
  the Set of \<open>u\<close> is empty and \<^verbatim>\<open>trigger\<close> for a write to \<open>u\<close> runs nothing and
  leaves the state as it is.  If moreover the run was started outside of any effect and
  \<open>e\<close> was the only subscriber of the iteration key, the assignment \<^verbatim>\<open>p[u] = v\<close>
  itself returns without running any effect.
\<close>

theorem branch_sensitive_tracking:
  assumes f: "fn (effects s e) = branch_fn (VProxy t) c x y"
      and i: "index_covers s e"
  shows "\<exists>s1. effectFn (exec (n + 3)) e s = Some (Normal VUndef, s1)
           \<and> (\<forall>t' k'. (e \<in> set (dep_set s1 t' k')) = (t' = t \<and> (k' = c \<or> k' = taken_key s t c x y)))
           \<and> index_covers s1 e
           \<and> (\<forall>h. \<exists>s2. effectFn (exec (n + 3)) e (s1\<lparr>heap := h\<rparr>) = Some (Normal VUndef, s2)
                 \<and> (\<forall>t' k'. (e \<in> set (dep_set s2 t' k'))
                        = (t' = t \<and> (k' = c \<or> k' = taken_key (s1\<lparr>heap := h\<rparr>) t c x y)))
                 \<and> (\<forall>u. u \<noteq> c \<and> u \<noteq> taken_key (s1\<lparr>heap := h\<rparr>) t c x y \<and> set (dep_set s t u) \<subseteq> {e}
                        \<longrightarrow> dep_set s2 t u = [] \<and> (\<exists>r. trigger call t u SET s2 = Some (r, s2))
                          \<and> (\<forall>v. effectStack s = [] \<and> ITERATE_KEY \<notin> {c, x, y}
                                   \<and> set (dep_set s t ITERATE_KEY) \<subseteq> {e}
                                \<longrightarrow> (\<exists>r s3. js_set call (VProxy t) u v s2 = Some (r, s3)
                                              \<and> trace s3 = trace s2))))"
proof -
  define k2 where "k2 = taken_key s t c x y"
  define s1 where "s1 = leave (track t k2 (track t c (enter e s)))"
  have n3: "n + 3 = Suc (Suc (Suc n))" by simp
  have run1: "effectFn (exec (n + 3)) e s = Some (Normal VUndef, s1)"
    unfolding n3 s1_def k2_def by (rule branch_run [OF f])
  have mem1: "(e \<in> set (dep_set s1 t' k')) = (t' = t \<and> (k' = c \<or> k' = k2))" for t' k'
    unfolding s1_def by (rule two_reads_state(1) [OF i])
  have oth1: "filter (\<lambda>a. a \<noteq> e) (dep_set s1 t' k') = filter (\<lambda>a. a \<noteq> e) (dep_set s t' k')" for t' k'
    unfolding s1_def by (rule two_reads_state(2) [OF i])
  have deps1: "deps (effects s1 e) = [(t, c), (t, k2)]"
    unfolding s1_def by (rule two_reads_state(3) [OF i])
  have fn1: "fn (effects s1 e) = fn (effects s e)"
    unfolding s1_def by (rule two_reads_state(5) [OF i])
  have stk1: "effectStack s1 = effectStack s"
    unfolding s1_def by (rule leave_enter_stack(1))
  have i1: "index_covers s1 e"
    unfolding index_covers_def by (simp add: mem1 deps1)
  have second: "\<exists>s2. effectFn (exec (n + 3)) e (s1\<lparr>heap := h\<rparr>) = Some (Normal VUndef, s2)
                 \<and> (\<forall>t' k'. (e \<in> set (dep_set s2 t' k'))
                        = (t' = t \<and> (k' = c \<or> k' = taken_key (s1\<lparr>heap := h\<rparr>) t c x y)))
                 \<and> (\<forall>u. u \<noteq> c \<and> u \<noteq> taken_key (s1\<lparr>heap := h\<rparr>) t c x y \<and> set (dep_set s t u) \<subseteq> {e}
                        \<longrightarrow> dep_set s2 t u = [] \<and> (\<exists>r. trigger call t u SET s2 = Some (r, s2))
                          \<and> (\<forall>v. effectStack s = [] \<and> ITERATE_KEY \<notin> {c, x, y}
                                   \<and> set (dep_set s t ITERATE_KEY) \<subseteq> {e}
                                \<longrightarrow> (\<exists>r s3. js_set call (VProxy t) u v s2 = Some (r, s3)
                                              \<and> trace s3 = trace s2)))" for h
  proof -
    define s1' where "s1' = s1\<lparr>heap := h\<rparr>"
    define k3 where "k3 = taken_key s1' t c x y"
    define s2 where "s2 = leave (track t k3 (track t c (enter e s1')))"
    have ds: "dep_set s1' t' k' = dep_set s1 t' k'" for t' k'
      by (simp add: s1'_def dep_set_def)
    have f': "fn (effects s1' e) = branch_fn (VProxy t) c x y"
      by (simp add: s1'_def fn1 f)
    have i': "index_covers s1' e"
      unfolding s1'_def by (simp add: index_covers_heap i1)
    have run2: "effectFn (exec (n + 3)) e s1' = Some (Normal VUndef, s2)"
      unfolding n3 s2_def k3_def by (rule branch_run [OF f'])
    have mem2: "(e \<in> set (dep_set s2 t' k')) = (t' = t \<and> (k' = c \<or> k' = k3))" for t' k'
      unfolding s2_def by (rule two_reads_state(1) [OF i'])
    have oth2: "filter (\<lambda>a. a \<noteq> e) (dep_set s2 t' k') = filter (\<lambda>a. a \<noteq> e) (dep_set s t' k')" for t' k'
    proof -
      have "filter (\<lambda>a. a \<noteq> e) (dep_set s2 t' k') = filter (\<lambda>a. a \<noteq> e) (dep_set s1' t' k')"
        unfolding s2_def by (rule two_reads_state(2) [OF i'])
      then show ?thesis by (simp only: ds oth1)
    qed
    have act2: "effectStack s = [] \<Longrightarrow> activeEffect s2 = None"
      unfolding s2_def by (simp add: leave_enter_stack(2) s1'_def stk1)
    have k3xy: "k3 = x \<or> k3 = y"
      unfolding k3_def by (rule taken_key_cases)
    have gone: "dep_set s2 t w = []" if w: "w \<noteq> c" "w \<noteq> k3" "set (dep_set s t w) \<subseteq> {e}" for w
    proof -
      have "filter (\<lambda>a. a \<noteq> e) (dep_set s t w) = []"
        using w(3) by (auto simp: filter_empty_conv)
      then have "filter (\<lambda>a. a \<noteq> e) (dep_set s2 t w) = []"
        by (simp only: oth2)
      moreover have "e \<notin> set (dep_set s2 t w)"
        using w(1,2) by (simp add: mem2)
      ultimately show ?thesis
        by (rule empty_if_only_member)
    qed
    have quiet: "dep_set s2 t u = [] \<and> (\<exists>r. trigger call t u SET s2 = Some (r, s2))
                 \<and> (\<forall>v. effectStack s = [] \<and> ITERATE_KEY \<notin> {c, x, y}
                          \<and> set (dep_set s t ITERATE_KEY) \<subseteq> {e}
                        \<longrightarrow> (\<exists>r s3. js_set call (VProxy t) u v s2 = Some (r, s3)
                                      \<and> trace s3 = trace s2))"
      if u: "u \<noteq> c \<and> u \<noteq> k3 \<and> set (dep_set s t u) \<subseteq> {e}" for u
    proof -
      have g: "dep_set s2 t u = []"
        using u by (intro gone) simp_all
      have w: "\<exists>r s3. js_set call (VProxy t) u v s2 = Some (r, s3) \<and> trace s3 = trace s2"
        if h: "effectStack s = [] \<and> ITERATE_KEY \<notin> {c, x, y} \<and> set (dep_set s t ITERATE_KEY) \<subseteq> {e}"
        for v
      proof -
        have "ITERATE_KEY \<noteq> c" "ITERATE_KEY \<noteq> k3"
          using h k3xy by auto
        then have it: "dep_set s2 t ITERATE_KEY = []"
          using h by (intro gone) simp_all
        have "activeEffect s2 = None"
          using h act2 by simp
        then show ?thesis
          using g it by (rule write_nothing_subscribed)
      qed
      show ?thesis
        using g trigger_no_subscribers [of s2 t u call] w by simp
    qed
    have A: "effectFn (exec (n + 3)) e (s1\<lparr>heap := h\<rparr>) = Some (Normal VUndef, s2)"
      using run2 unfolding s1'_def .
    have B: "\<forall>t' k'. (e \<in> set (dep_set s2 t' k'))
                = (t' = t \<and> (k' = c \<or> k' = taken_key (s1\<lparr>heap := h\<rparr>) t c x y))"
      using mem2 unfolding k3_def s1'_def by simp
    have C: "\<forall>u. u \<noteq> c \<and> u \<noteq> taken_key (s1\<lparr>heap := h\<rparr>) t c x y \<and> set (dep_set s t u) \<subseteq> {e}
                \<longrightarrow> dep_set s2 t u = [] \<and> (\<exists>r. trigger call t u SET s2 = Some (r, s2))
                  \<and> (\<forall>v. effectStack s = [] \<and> ITERATE_KEY \<notin> {c, x, y}
                           \<and> set (dep_set s t ITERATE_KEY) \<subseteq> {e}
                        \<longrightarrow> (\<exists>r s3. js_set call (VProxy t) u v s2 = Some (r, s3)
                                      \<and> trace s3 = trace s2))"
      using quiet unfolding k3_def s1'_def by (intro allI impI)
    show ?thesis
      by (rule exI [of _ s2]) (rule conjI [OF A conjI [OF B C]])
  qed
  have M: "\<forall>t' k'. (e \<in> set (dep_set s1 t' k')) = (t' = t \<and> (k' = c \<or> k' = taken_key s t c x y))"
    using mem1 unfolding k2_def by simp
  have S: "\<forall>h. \<exists>s2. effectFn (exec (n + 3)) e (s1\<lparr>heap := h\<rparr>) = Some (Normal VUndef, s2)
                 \<and> (\<forall>t' k'. (e \<in> set (dep_set s2 t' k'))
                        = (t' = t \<and> (k' = c \<or> k' = taken_key (s1\<lparr>heap := h\<rparr>) t c x y)))
                 \<and> (\<forall>u. u \<noteq> c \<and> u \<noteq> taken_key (s1\<lparr>heap := h\<rparr>) t c x y \<and> set (dep_set s t u) \<subseteq> {e}
                        \<longrightarrow> dep_set s2 t u = [] \<and> (\<exists>r. trigger call t u SET s2 = Some (r, s2))
                          \<and> (\<forall>v. effectStack s = [] \<and> ITERATE_KEY \<notin> {c, x, y}
                                   \<and> set (dep_set s t ITERATE_KEY) \<subseteq> {e}
                                \<longrightarrow> (\<exists>r s3. js_set call (VProxy t) u v s2 = Some (r, s3)
                                              \<and> trace s3 = trace s2)))"
    using second by (rule allI)
  show ?thesis
    by (rule exI [of _ s1]) (rule conjI [OF run1 conjI [OF M conjI [OF i1 S]]])
qed

text \<open>The object \<^verbatim>\<open>{ok: true, a: 1, b: 2}\<close> with a \<^verbatim>\<open>raw\<close> property holding the object
  itself, so that assignments reach \<^verbatim>\<open>trigger\<close>: the first run subscribes the effect to
  \<^verbatim>\<open>ok\<close> and \<^verbatim>\<open>a\<close>; after \<^verbatim>\<open>ok\<close> has become false the second run subscribes it to
  \<^verbatim>\<open>ok\<close> and \<^verbatim>\<open>b\<close>.  Then \<^verbatim>\<open>p.a = 5\<close> stores 5 and runs nothing, whereas \<^verbatim>\<open>p.b = 5\<close>
  runs the effect a third time.\<close>

theorem branch_sensitive_tracking_witness:
  "effect 0 (branch_fn (VProxy 1) (Name ''ok'') (Name ''a'') (Name ''b'')) lazy_options
      (store 1 (branch_object True) init_state) = Some (Normal 0, branch_example)
   \<and> index_covers branch_example 0
   \<and> (\<exists>s1. effectFn (exec 3) 0 branch_example = Some (Normal VUndef, s1)
        \<and> dep_set s1 1 (Name ''ok'') = [0] \<and> dep_set s1 1 (Name ''a'') = [0]
        \<and> dep_set s1 1 (Name ''b'') = []
        \<and> (\<exists>s2. effectFn (exec 3) 0 (s1\<lparr>heap := (heap s1)(1 := branch_object False)\<rparr>)
                    = Some (Normal VUndef, s2)
             \<and> dep_set s2 1 (Name ''ok'') = [0] \<and> dep_set s2 1 (Name ''a'') = []
             \<and> dep_set s2 1 (Name ''b'') = [0]
             \<and> trace s2 = [Ran 0, Ran 0]
             \<and> trigger (exec 3) 1 (Name ''a'') SET s2 = Some (Normal [], s2)
             \<and> (\<exists>s3. js_set (exec 3) (VProxy 1) (Name ''a'') (VNum 5) s2 = Some (Normal (), s3)
                  \<and> reflect_get (heap s3 1) (Name ''a'') = VNum 5 \<and> trace s3 = [Ran 0, Ran 0])
             \<and> (\<exists>s4. js_set (exec 3) (VProxy 1) (Name ''b'') (VNum 5) s2 = Some (Normal (), s4)
                  \<and> trace s4 = [Ran 0, Ran 0, Ran 0])))"
  using branch_sensitive_tracking [of branch_example 0 1 "Name ''ok''" "Name ''a''" "Name ''b''" 0 "exec 3"]
  by (simp add: engine branch_example_def branch_object_def index_covers_def eval_nat_numeral)

section \<open>Reading a computed inside an effect\<close>

lemma track_all_Nil: "track_all [] s = s"
  by (simp add: track_all_def)

lemma track_all_Cons: "track_all (tk # ks) s = track_all ks (track (fst tk) (snd tk) s)"
  by (simp add: track_all_def)




lemma filter_track_all:
  assumes "activeEffect s = Some a"
  shows "filter (\<lambda>b. b \<noteq> a) (dep_set (track_all ks s) t k) = filter (\<lambda>b. b \<noteq> a) (dep_set s t k)"
  using assms
proof (induction ks arbitrary: s)
  case Nil
  then show ?case by (simp add: track_all_Nil)
next
  case (Cons tk ks)
  have "activeEffect (track (fst tk) (snd tk) s) = Some a"
    using Cons.prems by (simp add: track_frame)
  from Cons.IH [OF this] show ?case
    using Cons.prems by (simp add: track_all_Cons dep_set_track filter_set_add)
qed



lemma computed_value_dirty:
  assumes "dirty (computeds s c)"
  shows "computed_value call c s
           = bind (effectFn call (ceffect (computeds s c)) s) (\<lambda>r s1. ok r (settle c r s1))"
  using assms by (simp add: computed_value_def settle_def Let_def)














section \<open>The reverse index covers the memberships in every reachable state\<close>

text \<open>
  Only \<^verbatim>\<open>track\<close> and \<^verbatim>\<open>cleanup\<close> change the Sets and the lists \<^verbatim>\<open>deps\<close>, and
  both keep every Set that holds an effect listed in the \<^verbatim>\<open>deps\<close> of that effect.  So
  the property holds in the initial state and after every run of a function of the
  user, whatever it calls.
\<close>

lemma index_covers_init: "index_covers init_state e"
  by (simp add: index_covers_def dep_set_def bucket_get_def init_state_def)

lemma index_covers_track:
  assumes "index_covers s e"
  shows "index_covers (track t k s) e"
proof (cases "activeEffect s")
  case None
  then show ?thesis using assms by (simp add: track_def)
next
  case (Some a)
  show ?thesis
    using assms unfolding index_covers_def
    by (auto simp: dep_set_track [OF Some] deps_track [OF Some] set_set_add split: if_splits)
qed

lemma index_covers_cleanup:
  assumes "index_covers s e"
  shows "index_covers (cleanup a s) e"
  using assms unfolding index_covers_def
  by (auto simp: dep_set_cleanup cleanup_frame set_set_delete split: if_splits)

lemma index_ok_track: "index_ok s \<Longrightarrow> index_ok (track t k s)"
  by (simp add: index_ok_def index_covers_track)

lemma index_ok_cleanup: "index_ok s \<Longrightarrow> index_ok (cleanup a s)"
  by (simp add: index_ok_def index_covers_cleanup)

lemma index_ok_cong:
  assumes "bucket s' = bucket s" and "\<And>e. deps (effects s' e) = deps (effects s e)"
  shows "index_ok s' = index_ok s"
  using assms by (simp add: index_ok_def index_covers_def dep_set_def)

lemma index_ok_updates:
  "index_ok (s\<lparr>heap := h\<rparr>) = index_ok s"
  "index_ok (s\<lparr>activeEffect := a\<rparr>) = index_ok s"
  "index_ok (s\<lparr>effectStack := st\<rparr>) = index_ok s"
  "index_ok (s\<lparr>trace := tr\<rparr>) = index_ok s"
  "index_ok (s\<lparr>shouldTrack := b\<rparr>) = index_ok s"
  "index_ok (s\<lparr>computeds := cs\<rparr>) = index_ok s"
  "index_ok (s\<lparr>watches := ws\<rparr>) = index_ok s"
  "index_ok (s\<lparr>queue := q\<rparr>) = index_ok s"
  "index_ok (s\<lparr>isFlushing := b\<rparr>) = index_ok s"
  "index_ok (s\<lparr>microtasks := m\<rparr>) = index_ok s"
  "index_ok (s\<lparr>queue_clear := qc\<rparr>) = index_ok s"
  by (rule index_ok_cong; simp)+

lemma index_ok_js_get: "index_ok s \<Longrightarrow> js_get x k s = (r, s') \<Longrightarrow> index_ok s'"
  by (auto simp: js_get_def get_handler_def Let_def index_ok_track split: val.splits)

lemma index_ok_proxyRefs_get: "index_ok s \<Longrightarrow> proxyRefs_get x k s = (r, s') \<Longrightarrow> index_ok s'"
  unfolding proxyRefs_get_def
  by (auto split: if_splits prod.splits result.splits; blast intro: index_ok_js_get)

lemma index_ok_queueJob: "index_ok s \<Longrightarrow> index_ok (queueJob j s)"
  by (simp add: queueJob_def Let_def index_ok_updates)

lemma bind_SomeD:
  assumes "bind m f = Some (r, s')"
  shows "(\<exists>e. m = Some (Throw e, s') \<and> r = Throw e) \<or> (\<exists>v s1. m = Some (Normal v, s1) \<and> f v s1 = Some (r, s'))"
  using assms by (auto simp: bind_def split: option.splits prod.splits result.splits)

lemma index_ok_effectFn:
  assumes k: "keeps_index call" and i: "index_ok s" and r: "effectFn call e s = Some (r, s')"
  shows "index_ok s'"
proof -
  have e: "index_ok (enter e s)"
    using i by (simp add: enter_def index_ok_updates index_ok_cleanup)
  from r [unfolded effectFn_enter_leave] show ?thesis
  proof (rule bind_SomeD [THEN disjE])
    assume "\<exists>er. call (fn (effects s e)) (enter e s) = Some (Throw er, s') \<and> r = Throw er"
    then show ?thesis using k e by (auto simp: keeps_index_def)
  next
    assume "\<exists>v s1. call (fn (effects s e)) (enter e s) = Some (Normal v, s1) \<and> ok VUndef (leave s1) = Some (r, s')"
    then obtain v s1 where c: "call (fn (effects s e)) (enter e s) = Some (Normal v, s1)"
      and l: "s' = leave s1" by (auto simp: ok_def)
    have "index_ok s1" using k e c by (auto simp: keeps_index_def)
    then show ?thesis by (simp add: l leave_def index_ok_updates)
  qed
qed

lemma index_ok_bind:
  assumes "bind m f = Some (r, s')"
      and "\<And>r1 s1. m = Some (r1, s1) \<Longrightarrow> index_ok s1"
      and "\<And>v s1. m = Some (Normal v, s1) \<Longrightarrow> index_ok s1 \<Longrightarrow> f v s1 = Some (r, s') \<Longrightarrow> index_ok s'"
  shows "index_ok s'"
  using assms by (auto simp: bind_def split: option.splits prod.splits result.splits)

lemma keeps_indexD:
  "keeps_index call \<Longrightarrow> index_ok s \<Longrightarrow> call p s = Some (r, s') \<Longrightarrow> index_ok s'"
  by (auto simp: keeps_index_def)

lemma index_ok_okD: "ok v s = Some (r, s') \<Longrightarrow> index_ok s \<Longrightarrow> index_ok s'"
  by (simp add: ok_def)

lemma index_ok_throwD: "throw e s = Some (r, s') \<Longrightarrow> index_ok s \<Longrightarrow> index_ok s'"
  by (simp add: throw_def)

lemma index_ok_job:
  assumes k: "keeps_index call" and i: "index_ok s" and r: "job call w s = Some (r, s')"
  shows "index_ok s'"
  using r unfolding job_def Let_def
  apply (rule index_ok_bind)
   apply (erule index_ok_effectFn [OF k i])
  apply (erule index_ok_bind)
   apply (erule keeps_indexD [OF k, rotated], simp add: index_ok_updates)
  apply (auto simp: ok_def index_ok_updates)
  done

lemma index_ok_run_scheduler:
  assumes k: "keeps_index call" and i: "index_ok s" and r: "run_scheduler call sch e s = Some (r, s')"
  shows "index_ok s'"
proof (cases sch)
  case (SchedComputed c)
  then show ?thesis using r i
    by (auto simp: run_scheduler_def ok_def index_ok_updates split: if_splits)
next
  case (SchedWatch w)
  then show ?thesis using r index_ok_job [OF k i] by (simp add: run_scheduler_def)
next
  case SchedQueueJob
  then show ?thesis using r i by (auto simp: run_scheduler_def ok_def index_ok_queueJob)
next
  case (SchedUser f)
  then have "bind (call (f e) s) (\<lambda>r s1. ok () s1) = Some (r, s')"
    using r by (simp add: run_scheduler_def)
  then show ?thesis
    apply (rule index_ok_bind)
     apply (erule keeps_indexD [OF k i])
    apply (simp add: ok_def)
    done
qed

lemma index_ok_run_one:
  assumes k: "keeps_index call" and i: "index_ok s" and r: "run_one call e s = Some (r, s')"
  shows "index_ok s'"
proof (cases "scheduler (opts (effects s e))")
  case None
  then have "bind (effectFn call e s) (\<lambda>r s1. ok () s1) = Some (r, s')"
    using r by (simp add: run_one_def)
  then show ?thesis
    apply (rule index_ok_bind)
     apply (erule index_ok_effectFn [OF k i])
    apply (simp add: ok_def)
    done
next
  case (Some sch)
  then show ?thesis using r index_ok_run_scheduler [OF k i] by (simp add: run_one_def)
qed

lemma index_ok_run_effects:
  assumes k: "keeps_index call"
  shows "index_ok s \<Longrightarrow> run_effects call es s = Some (r, s') \<Longrightarrow> index_ok s'"
proof (induction es arbitrary: s)
  case Nil
  then show ?case by (simp add: ok_def)
next
  case (Cons e es)
  from Cons.prems(2) have "bind (run_one call e s) (\<lambda>u s1. run_effects call es s1) = Some (r, s')"
    by simp
  then show ?case
    apply (rule index_ok_bind)
     apply (erule index_ok_run_one [OF k Cons.prems(1)])
    apply (erule (1) Cons.IH)
    done
qed

lemma index_ok_trigger:
  assumes k: "keeps_index call" and i: "index_ok s" and r: "trigger call t key ty s = Some (r, s')"
  shows "index_ok s'"
proof (cases "bucket s t")
  case None
  then show ?thesis using r i by (simp add: trigger_def ok_def)
next
  case (Some dm)
  from r show ?thesis
    unfolding trigger_def Some option.case Let_def
    apply (rule index_ok_bind)
     apply (erule index_ok_run_effects [OF k i])
    apply (auto simp: ok_def throw_def split: if_splits sum.splits)
    done
qed

lemma index_ok_receiver_raw:
  "index_ok s \<Longrightarrow> receiver_raw recv t s = (r, s') \<Longrightarrow> index_ok s'"
  by (cases recv) (auto simp: receiver_raw_def dest: index_ok_js_get index_ok_proxyRefs_get)

lemma index_ok_set_handler:
  assumes k: "keeps_index call" and i: "index_ok s"
      and r: "set_handler call t key v recv s = Some (r, s')"
  shows "index_ok s'"
proof -
  have h: "index_ok (s\<lparr>heap := h\<rparr>)" for h using i by (simp add: index_ok_updates)
  have raw: "receiver_raw recv t (s\<lparr>heap := h\<rparr>) = (r1, s1) \<Longrightarrow> index_ok s1" for h r1 s1
    by (rule index_ok_receiver_raw [OF h])
  have tr: "receiver_raw recv t (s\<lparr>heap := h\<rparr>) = (r1, s1) \<Longrightarrow>
            bind (trigger call t key ty s1) (\<lambda>es. ok True) = Some (r, s') \<Longrightarrow> index_ok s'" for h r1 s1 ty
    apply (erule index_ok_bind)
     apply (erule index_ok_trigger [OF k raw, rotated], assumption)
    apply (simp add: ok_def)
    done
  show ?thesis
    using r i unfolding set_handler_def Let_def
    by (auto simp: throw_def ok_def split: sum.splits prod.splits result.splits if_splits
        intro: raw tr)
qed

lemma index_ok_deleteProperty_handler:
  assumes k: "keeps_index call" and i: "index_ok s"
      and r: "deleteProperty_handler call t key s = Some (r, s')"
  shows "index_ok s'"
proof -
  have h: "index_ok (s\<lparr>heap := h\<rparr>)" for h using i by (simp add: index_ok_updates)
  have tr: "bind (trigger call t key DELETE (s\<lparr>heap := h\<rparr>)) (\<lambda>es s2. ok b s2) = Some (r, s')
            \<Longrightarrow> index_ok s'" for h b
    apply (erule index_ok_bind)
     apply (erule index_ok_trigger [OF k h])
    apply (simp add: ok_def)
    done
  show ?thesis
    using r h unfolding deleteProperty_handler_def Let_def
    by (auto simp: ok_def split: if_splits intro: tr)
qed

lemma index_ok_js_set:
  assumes k: "keeps_index call" and i: "index_ok s" and r: "js_set call x key v s = Some (r, s')"
  shows "index_ok s'"
proof (cases x)
  case (VProxy t)
  then have "bind (set_handler call t key v Self s) (\<lambda>b s1. ok () s1) = Some (r, s')"
    using r by (simp add: js_set_def)
  then show ?thesis
    apply (rule index_ok_bind)
     apply (erule index_ok_set_handler [OF k i])
    apply (simp add: ok_def)
    done
qed (use r i in \<open>auto simp: js_set_def throw_def ok_def index_ok_updates split: sum.splits\<close>)

lemma index_ok_js_delete:
  assumes k: "keeps_index call" and i: "index_ok s" and r: "js_delete call x key s = Some (r, s')"
  shows "index_ok s'"
proof (cases x)
  case (VProxy t)
  then show ?thesis
    using r index_ok_deleteProperty_handler [OF k i] by (simp add: js_delete_def)
qed (use r i in \<open>auto simp: js_delete_def throw_def ok_def index_ok_updates\<close>)

lemma index_ok_proxyRefs_set:
  assumes k: "keeps_index call" and i: "index_ok s"
      and r: "proxyRefs_set call target key v s = Some (r, s')"
  shows "index_ok s'"
proof -
  have g: "js_get y k2 s = (r1, s1) \<Longrightarrow> js_get z k3 s1 = (r2, s2) \<Longrightarrow> index_ok s2" for y z k2 k3 r1 r2 s1 s2
    using i by (blast intro: index_ok_js_get)
  have g1: "js_get y k2 s = (r1, s1) \<Longrightarrow> index_ok s1" for y k2 r1 s1
    using i by (blast intro: index_ok_js_get)
  have st: "js_get y k2 s = (r1, s1) \<Longrightarrow> js_get z k3 s1 = (r2, s2) \<Longrightarrow>
            bind (js_set call z (Name ''value'') v s2) (\<lambda>u s3. ok True s3) = Some (r, s') \<Longrightarrow> index_ok s'"
    for y z k2 k3 r1 r2 s1 s2
    apply (erule index_ok_bind)
     apply (erule index_ok_js_set [OF k g, rotated 2], assumption, assumption)
    apply (simp add: ok_def)
    done
  have sh: "js_get y k2 s = (r1, s1) \<Longrightarrow> js_get z k3 s1 = (r2, s2) \<Longrightarrow>
            set_handler call t key v recv s2 = Some (r, s') \<Longrightarrow> index_ok s'"
    for y z k2 k3 r1 r2 s1 s2 t recv
    by (erule index_ok_set_handler [OF k g, rotated 2], assumption, assumption)
  show ?thesis
    using r i unfolding proxyRefs_set_def
    by (auto simp: throw_def ok_def index_ok_updates
        split: if_splits prod.splits result.splits val.splits sum.splits
        intro: g g1 st sh)
qed

lemma index_ok_arrayInstrumentations:
  assumes k: "keeps_index call" and i: "index_ok s"
      and r: "arrayInstrumentations call m this args s = Some (r, s')"
  shows "index_ok s'"
proof (cases "is_search m")
  case True
  from r True obtain body where b: "originMethod m this args = Some body"
    by (cases "originMethod m this args") (auto simp: arrayInstrumentations_def)
  have again: "js_get this (Name ''raw'') s1 = (Normal rawv, s2) \<Longrightarrow> index_ok s1 \<Longrightarrow>
               originMethod m rawv args = Some body2 \<Longrightarrow> call body2 s2 = Some (r, s') \<Longrightarrow> index_ok s'"
    for s1 s2 rawv body2
    by (blast intro: keeps_indexD [OF k] index_ok_js_get)
  from r show ?thesis
    unfolding arrayInstrumentations_def using True b
    apply simp
    apply (erule index_ok_bind)
     apply (erule keeps_indexD [OF k i])
    apply (auto simp: ok_def throw_def split: if_splits prod.splits result.splits option.splits
        intro: again index_ok_js_get)
    done
next
  case False
  from r False obtain body where b: "originMethod m this args = Some body"
    by (cases "originMethod m this args") (auto simp: arrayInstrumentations_def)
  have f: "index_ok (s\<lparr>shouldTrack := False\<rparr>)" using i by (simp add: index_ok_updates)
  from r show ?thesis
    unfolding arrayInstrumentations_def using False b
    apply simp
    apply (erule index_ok_bind)
     apply (erule keeps_indexD [OF k f])
    apply (simp add: ok_def index_ok_updates)
    apply (auto simp: index_ok_updates)
    done
qed

lemma index_ok_call_function:
  assumes k: "keeps_index call" and i: "index_ok s"
      and r: "call_function call f this args s = Some (r, s')"
  shows "index_ok s'"
  using r i index_ok_arrayInstrumentations [OF k i] keeps_indexD [OF k i]
  by (auto simp: call_function_def throw_def split: val.splits func.splits option.splits)

lemma index_ok_computed_value:
  assumes k: "keeps_index call" and i: "index_ok s"
      and r: "computed_value call c s = Some (r, s')"
  shows "index_ok s'"
proof (cases "dirty (computeds s c)")
  case True
  from r [unfolded computed_value_dirty [OF True]] show ?thesis
    apply (rule index_ok_bind)
     apply (erule index_ok_effectFn [OF k i])
    apply (simp add: ok_def settle_def)
    apply (auto simp: index_ok_updates)
    done
next
  case False
  then show ?thesis using r i by (simp add: computed_value_def ok_def)
qed

lemma keeps_index_exec: "keeps_index (exec n)"
proof (induction n)
  case 0
  then show ?case by (simp add: keeps_index_def)
next
  case (Suc n)
  note k = Suc.IH
  show ?case
    unfolding keeps_index_def
  proof (intro allI impI)
    fix p s r s'
    assume i: "index_ok s" and e: "exec (Suc n) p s = Some (r, s')"
    show "index_ok s'"
    proof (cases p)
      case (Ret v)
      then show ?thesis using e i by (simp add: ok_def)
    next
      case (Raise er)
      then show ?thesis using e i by (simp add: throw_def)
    next
      case (Get x key f)
      then show ?thesis using e i
        by (auto simp: throw_def split: prod.splits result.splits
            intro: keeps_indexD [OF k] index_ok_js_get)
    next
      case (Put x key v rest)
      then have "bind (js_set (exec n) x key v s) (\<lambda>u s1. exec n rest s1) = Some (r, s')"
        using e by simp
      then show ?thesis
        apply (rule index_ok_bind)
         apply (erule index_ok_js_set [OF k i])
        apply (erule (1) keeps_indexD [OF k])
        done
    next
      case (Delete x key f)
      then have "bind (js_delete (exec n) x key s) (\<lambda>b s1. exec n (f b) s1) = Some (r, s')"
        using e by simp
      then show ?thesis
        apply (rule index_ok_bind)
         apply (erule index_ok_js_delete [OF k i])
        apply (erule (1) keeps_indexD [OF k])
        done
    next
      case (Call g this args f)
      then have "bind (call_function (exec n) g this args s) (\<lambda>v s1. exec n (f v) s1) = Some (r, s')"
        using e by simp
      then show ?thesis
        apply (rule index_ok_bind)
         apply (erule index_ok_call_function [OF k i])
        apply (erule (1) keeps_indexD [OF k])
        done
    next
      case (CValue c f)
      then have "bind (computed_value (exec n) c s) (\<lambda>v s1. exec n (f v) s1) = Some (r, s')"
        using e by simp
      then show ?thesis
        apply (rule index_ok_bind)
         apply (erule index_ok_computed_value [OF k i])
        apply (erule (1) keeps_indexD [OF k])
        done
    next
      case (Invoke ef f)
      then have "bind (effectFn (exec n) ef s) (\<lambda>v s1. exec n (f v) s1) = Some (r, s')"
        using e by simp
      then show ?thesis
        apply (rule index_ok_bind)
         apply (erule index_ok_effectFn [OF k i])
        apply (erule (1) keeps_indexD [OF k])
        done
    next
      case (PRGet target key f)
      then show ?thesis using e i
        by (auto simp: throw_def split: prod.splits result.splits
            intro: keeps_indexD [OF k] index_ok_proxyRefs_get)
    next
      case (PRPut target key v rest)
      then have "bind (proxyRefs_set (exec n) target key v s) (\<lambda>b s1. exec n rest s1) = Some (r, s')"
        using e by simp
      then show ?thesis
        apply (rule index_ok_bind)
         apply (erule index_ok_proxyRefs_set [OF k i])
        apply (erule (1) keeps_indexD [OF k])
        done
    qed
  qed
qed

theorem index_ok_reachable:
  "index_ok init_state"
  "index_ok s \<Longrightarrow> index_ok (store r ob s)"
  "index_ok s \<Longrightarrow> run n p s = Some (res, s') \<Longrightarrow> index_ok s'"
  "index_ok s \<Longrightarrow> invoke n e s = Some (res, s') \<Longrightarrow> index_ok s'"
  "index_ok s \<Longrightarrow> read_computed n c s = Some (res, s') \<Longrightarrow> index_ok s'"
proof -
  show "index_ok init_state" by (simp add: index_ok_def index_covers_init)
  show "index_ok s \<Longrightarrow> index_ok (store r ob s)" by (simp add: store_def index_ok_updates)
  show "index_ok s \<Longrightarrow> run n p s = Some (res, s') \<Longrightarrow> index_ok s'"
    unfolding run_def by (rule keeps_indexD [OF keeps_index_exec])
  show "index_ok s \<Longrightarrow> invoke n e s = Some (res, s') \<Longrightarrow> index_ok s'"
    unfolding invoke_def by (rule index_ok_effectFn [OF keeps_index_exec])
  show "index_ok s \<Longrightarrow> read_computed n c s = Some (res, s') \<Longrightarrow> index_ok s'"
    unfolding read_computed_def by (rule index_ok_computed_value [OF keeps_index_exec])
qed

text \<open>Creating an effect or a computed, and flushing the queue, keep the property too;
  the identity of a new effect is in no Set.\<close>

lemma index_ok_new_effect:
  assumes i: "index_ok s" and f: "\<And>t k. e \<notin> set (dep_set s t k)"
  shows "index_ok (s\<lparr>effects := (effects s)(e := \<lparr>fn = g, opts = os, deps = []\<rparr>), next_effect := m\<rparr>)"
  using i f unfolding index_ok_def index_covers_def
  by (auto simp: dep_set_def)

lemma index_ok_effect:
  assumes i: "index_ok s" and f: "\<And>t k. next_effect s \<notin> set (dep_set s t k)"
      and r: "effect n g os s = Some (r, s')"
  shows "index_ok s'"
proof -
  define s1 where "s1 = s\<lparr>effects := (effects s)(next_effect s := \<lparr>fn = g, opts = os, deps = []\<rparr>),
                          next_effect := Suc (next_effect s)\<rparr>"
  have i1: "index_ok s1"
    unfolding s1_def by (rule index_ok_new_effect [OF i f])
  show ?thesis
  proof (cases "lazy os")
    case True
    then show ?thesis using r i1 by (simp add: effect_def Let_def ok_def s1_def)
  next
    case False
    then have "bind (effectFn (exec n) (next_effect s) s1) (\<lambda>r s2. ok (next_effect s) s2) = Some (r, s')"
      using r by (simp add: effect_def Let_def s1_def)
    then show ?thesis
      apply (rule index_ok_bind)
       apply (erule index_ok_effectFn [OF keeps_index_exec i1])
      apply (simp add: ok_def)
      done
  qed
qed

lemma index_ok_computed:
  assumes i: "index_ok s" and f: "\<And>t k. next_effect s \<notin> set (dep_set s t k)"
  shows "index_ok (snd (computed getter s))"
proof -
  have "index_ok (s\<lparr>effects := (effects s)(next_effect s :=
            \<lparr>fn = getter, opts = \<lparr>lazy = True, scheduler = Some (SchedComputed (next_computed s))\<rparr>, deps = []\<rparr>),
          next_effect := Suc (next_effect s)\<rparr>)"
    by (rule index_ok_new_effect [OF i f])
  then show ?thesis
    by (simp add: computed_def Let_def index_ok_updates)
       (simp add: index_ok_def index_covers_def dep_set_def)
qed

lemma index_ok_queue_forEach:
  "index_ok s \<Longrightarrow> queue_forEach m n i s = Some (r, s') \<Longrightarrow> index_ok s'"
proof (induction m arbitrary: i s)
  case 0
  then show ?case by simp
next
  case (Suc m)
  show ?case
  proof (cases "i < length (queue s)")
    case True
    then have "bind (effectFn (exec n) (queue s ! i) s) (\<lambda>r s1. queue_forEach m n (Suc i) s1) = Some (r, s')"
      using Suc.prems(2) by simp
    then show ?thesis
      apply (rule index_ok_bind)
       apply (erule index_ok_effectFn [OF keeps_index_exec Suc.prems(1)])
      apply (erule (1) Suc.IH)
      done
  next
    case False
    then show ?thesis using Suc.prems by (simp add: ok_def)
  qed
qed

lemma index_ok_flushJobs:
  "index_ok s \<Longrightarrow> flushJobs n s = Some (r, s') \<Longrightarrow> index_ok s'"
  by (auto simp: flushJobs_def index_ok_updates split: option.splits prod.splits
      dest: index_ok_queue_forEach)

lemma index_ok_run_microtask:
  "index_ok s \<Longrightarrow> run_microtask n s = Some s' \<Longrightarrow> index_ok s'"
  by (auto simp: run_microtask_def index_ok_updates split: if_splits option.splits prod.splits
      dest: index_ok_flushJobs [rotated])

section \<open>An effect that writes what it reads\<close>

lemma bind_None: "bind None f = None"
  by (simp add: bind_def)

lemma looping_bucket_enter:
  assumes "looping s e t k"
  shows "bucket (enter e s) t = None \<or> bucket (enter e s) t = Some [(k, []), (Name ''raw'', [])]"
    and "deps (effects (enter e s) e) = []"
  using assms
  by (auto simp: looping_def enter_def cleanup_def bucket_delete_def depsMap_get_def set_delete_def)

lemma looping_step:
  assumes l: "looping s e t k"
      and v: "props (heap s t) k = Some (VNum v)"
  defines "s1 \<equiv> track t k (enter e s)"
  defines "s2 \<equiv> track t (Name ''raw'')
                  (s1\<lparr>heap := (heap s1)(t := (heap s1 t)\<lparr>props := (props (heap s1 t))(k := Some (VNum (v + 1)))\<rparr>)\<rparr>)"
  shows "looping s2 e t k" and "bucket s2 t = Some [(k, [e]), (Name ''raw'', [e])]"
    and "activeEffect s2 = Some e"
proof -
  have kr: "k \<noteq> Name ''raw''" using l by (simp add: looping_def)
  have b1: "bucket s1 t = Some [(k, [e])] \<or> bucket s1 t = Some [(k, [e]), (Name ''raw'', [])]"
    using looping_bucket_enter(1) [OF l]
    by (auto simp: s1_def track_def enter_frame Let_def depsMap_get_def set_add_def)
  have d1: "deps (effects s1 e) = [(t, k)]"
    using looping_bucket_enter(2) [OF l] by (simp add: s1_def deps_track enter_frame)
  have a1: "activeEffect s1 = Some e" by (simp add: s1_def track_frame enter_frame)
  show b2: "bucket s2 t = Some [(k, [e]), (Name ''raw'', [e])]"
    using b1 kr a1 by (auto simp: s2_def track_def Let_def depsMap_get_def set_add_def)
  have d2: "deps (effects s2 e) = [(t, k), (t, Name ''raw'')]"
    using d1 a1 by (simp add: s2_def track_def Let_def)
  show "activeEffect s2 = Some e"
    using a1 by (simp add: s2_def track_frame)
  have h1: "heap s1 = heap s" by (simp add: s1_def track_frame enter_frame)
  have f1: "fn (effects s1 e) = fn (effects s e)" "opts (effects s1 e) = opts (effects s e)"
    by (simp_all add: s1_def track_frame enter_frame cleanup_frame)
  show "looping s2 e t k"
    using l b2 d2 kr h1 f1 unfolding looping_def
    by (simp add: s2_def track_frame)
qed

lemma increment_never_returns:
  "looping s e t k \<Longrightarrow> effectFn (exec n) e s = None"
proof (induction n arbitrary: s rule: less_induct)
  case (less n)
  note l = less.prems
  obtain v where v: "props (heap s t) k = Some (VNum v)"
    using l by (auto simp: looping_def)
  have na: "\<not> is_array (heap s t)" and raw: "props (heap s t) (Name ''raw'') = Some (VObj t)"
    and kr: "k \<noteq> Name ''raw''" and f: "fn (effects s e) = increment_fn (VProxy t) k"
    using l by (simp_all add: looping_def)
  define s1 where "s1 = track t k (enter e s)"
  define s2 where "s2 = track t (Name ''raw'')
                  (s1\<lparr>heap := (heap s1)(t := (heap s1 t)\<lparr>props := (props (heap s1 t))(k := Some (VNum (v + 1)))\<rparr>)\<rparr>)"
  have st: "looping s2 e t k" "bucket s2 t = Some [(k, [e]), (Name ''raw'', [e])]"
    unfolding s2_def s1_def by (rule looping_step [OF l v])+
  have sch: "scheduler (opts (effects s2 e)) = None"
    using st(1) by (simp add: looping_def)
  have h1: "heap s1 = heap s" by (simp add: s1_def track_frame enter_frame)
  have body: "exec n (increment_fn (VProxy t) k) (enter e s) = None"
  proof (cases n)
    case 0
    then show ?thesis by simp
  next
    case (Suc m)
    note n = Suc
    show ?thesis
    proof (cases m)
      case 0
      then show ?thesis
        using n v na by (simp add: increment_fn_def js_get_def get_handler_eq enter_frame)
    next
      case (Suc m')
      have lt: "m' < n" using n Suc by simp
      have rec: "effectFn (exec m') e s2 = None"
        by (rule less.IH [OF lt st(1)])
      have tr: "trigger (exec m') t k SET s2 = None"
        using st(2) rec sch
        by (simp add: trigger_def depsMap_get_def add_all_def set_add_def run_one_def bind_def Let_def)
      have tr': "trigger (exec m') t k SET
                   (track t (Name ''raw'')
                      (s1\<lparr>heap := (heap s)(t := (heap s t)\<lparr>props := (props (heap s t))(k := Some (VNum (v + 1)))\<rparr>)\<rparr>))
                   = None"
        using tr by (simp add: s2_def h1)
      have sh: "set_handler (exec m') t k (VNum (v + 1)) Self s1 = None"
        using tr' v na raw kr
        by (simp add: set_handler_def Let_def h1 reflect_get_def set_type_def hasOwn_def
            reflect_set_def receiver_raw_def js_get_def get_handler_eq get_result_def
            strict_eq_def bind_def)
      show ?thesis
        using n Suc v na sh
        by (simp add: increment_fn_def js_get_def get_handler_eq get_result_def reflect_get_def
            enter_frame s1_def [symmetric] js_set_def bind_def plus_one_def to_numeric_def)
    qed
  qed
  show ?case
    by (simp add: effectFn_enter_leave f body bind_None)
qed

text \<open>
  Claim C2.  The claim: \<^verbatim>\<open>trigger\<close> never runs the effect that is the active effect,
  so a function that reads and writes the same key does not recurse without end.
  Lines 190 to 193 add every subscriber of the key to \<^verbatim>\<open>effectsToRun\<close> without the
  test \<^verbatim>\<open>effectFn !== activeEffect\<close> of lines 211 and 220.  On \<^verbatim>\<open>obj = {k: 1}\<close> with
  the reactive proxy \<open>p\<close>, the effect \<^verbatim>\<open>() => { p.k; delete p.k }\<close> is run twice by its
  creation: the second time by \<^verbatim>\<open>trigger\<close>, while it is the active effect.  On
  \<^verbatim>\<open>obj = {value: 0}; obj.raw = obj\<close>, where a write reaches \<^verbatim>\<open>trigger\<close>,
  \<^verbatim>\<open>effect(() => p.value++)\<close> does not return for any bound on the depth of the calls.
\<close>

theorem active_effect_is_rerun:
  "(\<exists>s. effect 5 (read_delete_fn (VProxy 1) (Name ''k'')) no_options
          (store 1 (plain_object [(Name ''k'', VNum 1)]) init_state) = Some (Normal 0, s)
      \<and> trace s = [Ran 0, Ran 0] \<and> reflect_get (heap s 1) (Name ''k'') = VUndef)
   \<and> (\<forall>n. effect n (increment_fn (VProxy 1) (Name ''value'')) no_options
            (store 1 (with_raw 1 (plain_object [(Name ''value'', VNum 0)])) init_state) = None)"
proof
  show "\<exists>s. effect 5 (read_delete_fn (VProxy 1) (Name ''k'')) no_options
          (store 1 (plain_object [(Name ''k'', VNum 1)]) init_state) = Some (Normal 0, s)
      \<and> trace s = [Ran 0, Ran 0] \<and> reflect_get (heap s 1) (Name ''k'') = VUndef"
    by (simp add: engine eval_nat_numeral)
next
  define s0 where "s0 = (store 1 (with_raw 1 (plain_object [(Name ''value'', VNum 0)])) init_state)
      \<lparr>effects := (effects init_state)(0 := \<lparr>fn = increment_fn (VProxy 1) (Name ''value''),
                                             opts = no_options, deps = []\<rparr>),
       next_effect := Suc 0\<rparr>"
  have "looping s0 0 1 (Name ''value'')"
    by (simp add: looping_def s0_def store_def with_raw_def plain_object_def init_state_def
        no_options_def)
  then have "effectFn (exec n) 0 s0 = None" for n
    by (rule increment_never_returns)
  then show "\<forall>n. effect n (increment_fn (VProxy 1) (Name ''value'')) no_options
            (store 1 (with_raw 1 (plain_object [(Name ''value'', VNum 0)])) init_state) = None"
    by (simp add: effect_def Let_def no_options_def bind_None s0_def store_def init_state_def)
qed

section \<open>General facts behind the runs above\<close>

text \<open>A write to a target whose \<^verbatim>\<open>raw\<close> is not the target itself runs no effect,
  whatever is subscribed.\<close>

lemma trace_track: "trace (track t k s) = trace s"
  by (simp add: track_frame)

lemma write_without_raw_runs_nothing:
  assumes "get_result (heap s t) (Name ''raw'') \<noteq> VObj t"
      and "k \<noteq> Name ''raw''"
  shows "\<exists>r s'. set_handler call t k v Self s = Some (r, s') \<and> trace s' = trace s"
proof -
  have raw: "reflect_set (heap s t) k v = Inr ob' \<Longrightarrow> get_result ob' (Name ''raw'') \<noteq> VObj t" for ob'
    using assms
    by (auto simp: reflect_set_def get_result_def reflect_get_def method_of_key_def
        method_of_name_def split: if_splits key.splits option.splits)
  show ?thesis
  proof (cases "set_type (heap s t) k")
    case (Inl e)
    then show ?thesis by (simp add: set_handler_def throw_def)
  next
    case (Inr ty)
    show ?thesis
    proof (cases "reflect_set (heap s t) k v")
      case (Inl e)
      then show ?thesis using Inr by (simp add: set_handler_def throw_def)
    next
      case (Inr ob')
      from raw [OF Inr] show ?thesis
        using \<open>set_type (heap s t) k = Inr ty\<close> Inr
        by (simp add: set_handler_def receiver_raw_def js_get_def get_handler_eq track_frame
            strict_eq_def ok_def)
    qed
  qed
qed

text \<open>A write of the value that the key already holds runs no effect, two \<open>NaN\<close>
  included.\<close>

lemma same_value_write_runs_nothing:
  assumes "reflect_get (heap s t) k = v"
  shows "\<exists>r s'. set_handler call t k v recv s = Some (r, s') \<and> trace s' = trace s"
proof -
  have c: "\<not> (\<not> strict_eq v v \<and> (strict_eq v v \<or> strict_eq v v))"
    by simp
  have tr: "receiver_raw recv t s1 = (r1, s2) \<Longrightarrow> trace s2 = trace s1" for s1 r1 s2
    by (cases recv)
       (auto simp: receiver_raw_def proxyRefs_get_def js_get_def get_handler_eq track_frame
          split: if_splits prod.splits result.splits val.splits)
  show ?thesis
  proof (cases "set_type (heap s t) k")
    case (Inl e)
    then show ?thesis by (simp add: set_handler_def throw_def)
  next
    case (Inr ty)
    note ty = Inr
    show ?thesis
    proof (cases "reflect_set (heap s t) k v")
      case (Inl e)
      then show ?thesis using ty by (simp add: set_handler_def throw_def)
    next
      case (Inr ob')
      obtain r1 s2 where rr: "receiver_raw recv t (s\<lparr>heap := (heap s)(t := ob')\<rparr>) = (r1, s2)"
        by (cases "receiver_raw recv t (s\<lparr>heap := (heap s)(t := ob')\<rparr>)")
      have "trace s2 = trace s"
        using tr [OF rr] by simp
      then show ?thesis
        using ty Inr rr assms c
        by (cases r1) (auto simp: set_handler_def Let_def throw_def ok_def)
    qed
  qed
qed

text \<open>An effect function that returns, returns \<^verbatim>\<open>undefined\<close>.\<close>

lemma effectFn_returns_undefined:
  "effectFn call e s = Some (Normal v, s') \<Longrightarrow> v = VUndef"
  by (auto simp: effectFn_def bind_def ok_def Let_def split: option.splits prod.splits result.splits)

text \<open>Without a global \<^verbatim>\<open>options\<close>, \<^verbatim>\<open>watch\<close> throws before anything runs, for
  every source and callback.\<close>

lemma watch_without_options:
  assumes "global_options s = None"
  shows "\<exists>s'. watch n source callback s = Some (Throw ReferenceError, s')
           \<and> trace s' = trace s \<and> bucket s' = bucket s"
  using assms by (simp add: watch_def Let_def throw_def)

text \<open>\<^verbatim>\<open>trigger\<close> for the key \<^verbatim>\<open>length\<close> runs the subscribers of \<^verbatim>\<open>length\<close> and of
  the iteration key only: without those it leaves the state as it is, whatever is
  tracked against the indices.\<close>

lemma trigger_length_runs_only_length_effects:
  assumes "dep_set s t (Name ''length'') = []" and "dep_set s t ITERATE_KEY = []"
  shows "\<exists>r. trigger call t (Name ''length'') ty s = Some (r, s)"
proof (cases "bucket s t")
  case None
  then show ?thesis by (simp add: trigger_def ok_def)
next
  case (Some dm)
  have e: "(case depsMap_get dm (Name ''length'') of None \<Rightarrow> [] | Some es \<Rightarrow> add_all es []) = []"
    using assms(1) Some by (auto simp: dep_set_def bucket_get_def add_all_def split: option.splits)
  have i: "(case depsMap_get dm ITERATE_KEY of None \<Rightarrow> [] | Some es \<Rightarrow> add_all es []) = []"
    using assms(2) Some by (auto simp: dep_set_def bucket_get_def add_all_def split: option.splits)
  show ?thesis
    using Some e i
    by (simp add: trigger_def Let_def bind_def ok_def throw_def split: sum.splits)
qed

text \<open>The \<^verbatim>\<open>finally\<close> block of lines 540 to 543.\<close>

lemma flushJobs_finally:
  "flushJobs n s = Some (r, s') \<Longrightarrow> \<not> isFlushing s' \<and> queue_clear s' = Some (VNum 0)"
  by (auto simp: flushJobs_def split: option.splits prod.splits)

text \<open>\<^verbatim>\<open>track\<close> does the same whatever \<^verbatim>\<open>shouldTrack\<close> is.\<close>

lemma track_ignores_shouldTrack:
  "track t k (s\<lparr>shouldTrack := b\<rparr>) = (track t k s)\<lparr>shouldTrack := b\<rparr>"
  by (simp add: track_def Let_def split: option.splits)

end
